theory Spec2Isabelle
  imports Main
begin

section \<open>The realtime tracking module (twoway.js)\<close>

text \<open>
  The module keeps a registry of callbacks per service and key, one websocket, a
  keepalive interval and a flag telling whether the next close of the socket is a
  legitimate one. Its functions are embedded as functions on a record of the module
  variables; every effect on the outside (frames sent, timers, events triggered,
  callbacks called) is appended to a list of effects held in the same record. Code of
  the caller that the module calls, a callback or a listener of a triggered event, is
  taken to return and not to call the module before it returns.
\<close>

subsection \<open>Plain objects and the \<open>in\<close> operator\<close>

text \<open>
  A plain object is the list of its own properties in insertion order. The operator
  \<open>in\<close> also finds the properties an object inherits: every object created by
  \<open>{}\<close> inherits the properties of \<open>Object.prototype\<close> listed below, whose values are
  built-in functions (or, for \<open>__proto__\<close>, the prototype object itself).

  The built-in objects are those of the runtime as it starts. They are not part of the
  state below: a call that stores a property on one of them (see \<open>Into_builtin\<close>) is
  outside what is described here, and so is everything that follows such a call.
\<close>

type_synonym 'v object = "(string \<times> 'v) list"

definition object_prototype_props :: "string list" where
  "object_prototype_props =
     [''constructor'', ''hasOwnProperty'', ''isPrototypeOf'', ''propertyIsEnumerable'',
      ''toLocaleString'', ''toString'', ''valueOf'', ''__proto__'',
      ''__defineGetter__'', ''__defineSetter__'', ''__lookupGetter__'', ''__lookupSetter__'']"

definition inherited :: "string \<Rightarrow> bool" where
  "inherited k = (k \<in> set object_prototype_props)"

definition has_own :: "string \<Rightarrow> 'v object \<Rightarrow> bool" where
  "has_own k obj = (map_of obj k \<noteq> None)"

text \<open>\<open>k in obj\<close>\<close>

definition in_object :: "string \<Rightarrow> 'v object \<Rightarrow> bool" where
  "in_object k obj = (has_own k obj \<or> inherited k)"

text \<open>\<open>obj[k] = v\<close> on an own or a new property: an own property keeps its place, a new
  one comes last.\<close>

fun set_prop :: "string \<Rightarrow> 'v \<Rightarrow> 'v object \<Rightarrow> 'v object" where
  "set_prop k v [] = [(k, v)]"
| "set_prop k v ((a, b) # ps) = (if k = a then (a, v) # ps else (a, b) # set_prop k v ps)"

text \<open>\<open>delete obj[k]\<close>\<close>

definition delete_prop :: "string \<Rightarrow> 'v object \<Rightarrow> 'v object" where
  "delete_prop k obj = filter (\<lambda>p. fst p \<noteq> k) obj"

text \<open>
  \<open>for (k in obj)\<close> visits the own enumerable properties: first those whose name is an
  array index (a canonical decimal numeral below \<open>2^32 - 1\<close>) in ascending numeric order,
  then the others in insertion order. After them it visits the enumerable properties
  that the object inherits. The inherited properties above are not enumerable, so that
  \<open>for_in\<close> gives the names visited as long as no property has been stored on
  \<open>Object.prototype\<close>; a property stored there is enumerable and is visited in every
  object, which \<open>for_in\<close> does not describe.
\<close>

definition digit_values :: "(char \<times> int) list" where
  "digit_values =
     [(CHR ''0'', 0), (CHR ''1'', 1), (CHR ''2'', 2), (CHR ''3'', 3), (CHR ''4'', 4),
      (CHR ''5'', 5), (CHR ''6'', 6), (CHR ''7'', 7), (CHR ''8'', 8), (CHR ''9'', 9)]"

definition is_digit :: "char \<Rightarrow> bool" where
  "is_digit c = (map_of digit_values c \<noteq> None)"

definition int_of_digits :: "string \<Rightarrow> int" where
  "int_of_digits s =
     foldl (\<lambda>n c. 10 * n + (case map_of digit_values c of Some d \<Rightarrow> d | None \<Rightarrow> 0)) 0 s"

definition is_array_index :: "string \<Rightarrow> bool" where
  "is_array_index s =
     (s \<noteq> [] \<and> list_all is_digit s \<and> (s = ''0'' \<or> hd s \<noteq> CHR ''0'') \<and>
      int_of_digits s < 4294967295)"

definition for_in :: "'v object \<Rightarrow> string list" where
  "for_in obj =
     (let ks = map fst obj
      in sort_key int_of_digits (filter is_array_index ks) @
         filter (\<lambda>k. \<not> is_array_index k) ks)"

text \<open>
  Modelled from the spec: \<open>empty\<close> is imported from the package \<open>@ouroboros/tools\<close>, which is
  not among the sources. The registry is pruned "when its list becomes empty, then the
  service entry when it becomes empty": on a plain object \<open>empty\<close> tells whether the object
  has no own property.
\<close>

definition empty :: "'v object \<Rightarrow> bool" where
  "empty obj = (obj = [])"

subsection \<open>Decoded messages\<close>

text \<open>
  The values \<open>JSON.parse\<close> returns. A number stands for its image under \<open>ToString\<close>
  (\<open>''0''\<close> for both zeros, the only falsy numbers a JSON text can give); \<open>undefined\<close>
  is \<open>None\<close> in \<open>json option\<close>. \<open>JSON.parse\<close> itself belongs to the runtime and is a
  parameter of the message handler: \<open>None\<close> when it throws.
\<close>

datatype json =
    JNull
  | JBool bool
  | JNum string
  | JStr string
  | JArr "json list"
  | JObj "(string \<times> json) list"

type_synonym decoder = "string \<Rightarrow> json option"

datatype js_error = SyntaxError | TypeError | InvalidStateError

text \<open>Reading a property \<open>v.name\<close> of a value that is neither \<open>null\<close> nor \<open>undefined\<close>, for
  a name that no prototype defines (\<open>error\<close>, \<open>msg\<close>, \<open>code\<close>, \<open>service\<close>, \<open>key\<close>, \<open>data\<close>).\<close>

fun property :: "json \<Rightarrow> string \<Rightarrow> json option" where
  "property (JObj ps) name = map_of ps name"
| "property _ name = None"

fun truthy :: "json option \<Rightarrow> bool" where
  "truthy None = False"
| "truthy (Some JNull) = False"
| "truthy (Some (JBool b)) = b"
| "truthy (Some (JNum n)) = (n \<noteq> ''0'')"
| "truthy (Some (JStr s)) = (s \<noteq> [])"
| "truthy (Some (JArr xs)) = True"
| "truthy (Some (JObj ps)) = True"

fun join :: "string list \<Rightarrow> string" where
  "join [] = []"
| "join [s] = s"
| "join (s # t # ss) = s @ '','' @ join (t # ss)"

text \<open>
  The conversion of a value to a string, as string concatenation and property keys need
  it; \<open>None\<close> is a \<open>TypeError\<close>. An array joins its elements with commas, \<open>null\<close> elements
  giving the empty string. An object gives \<open>[object Object]\<close> through the inherited
  \<open>toString\<close>; an object with an own property \<open>toString\<close>, which in a decoded message
  is never a function, cannot be converted.
\<close>

fun to_string :: "json \<Rightarrow> string option" where
  "to_string JNull = Some ''null''"
| "to_string (JBool b) = Some (if b then ''true'' else ''false'')"
| "to_string (JNum n) = Some n"
| "to_string (JStr s) = Some s"
| "to_string (JArr xs) =
     map_option join (those (map (\<lambda>x. if x = JNull then Some [] else to_string x) xs))"
| "to_string (JObj ps) =
     (if has_own ''toString'' ps then None else Some ''[object Object]'')"

definition show_value :: "json option \<Rightarrow> string option" where
  "show_value v = (case v of None \<Rightarrow> Some ''undefined'' | Some x \<Rightarrow> to_string x)"

subsection \<open>The module state\<close>

type_synonym callback = nat

type_synonym registry = "callback list object object"

text \<open>\<open>__socket\<close> is \<open>null\<close>, \<open>false\<close> (an open is under way) or the socket object, of which
  the module reads the \<open>readyState\<close>: 0 connecting, 1 open, 2 closing, 3 closed.\<close>

datatype socket = Sock_null | Sock_false | Sock nat

datatype frame =
    Connect "json option"
  | Track string string
  | Untrack string string
  | Ping

datatype wire = Single frame | Batch "frame list"

datatype effect =
    Send wire
  | Close_socket int string
  | Trigger string string
  | Call callback "json option"
  | Set_interval nat int
  | Clear_interval nat
  | Set_timeout int
  | Rest_read
  | New_websocket

text \<open>
  The state: the module variables \<open>__ping\<close>, \<open>__close\<close>, \<open>__socket\<close> and \<open>__services\<close>,
  then what the runtime holds for the module: the \<open>res.data\<close> captured by the hooks of
  the socket made last (the key of the handshake, or \<open>undefined\<close> on an answer without
  data), the handles of the running intervals, the next fresh handle, the
  numbers of pending timeouts and of unanswered requests, and the effects so far.
\<close>

record state =
  ping :: "nat option"
  close :: bool
  socket :: socket
  services :: registry
  res_data :: "json option"
  timers :: "nat list"
  next_timer :: nat
  timeouts :: nat
  requests :: nat
  effects :: "effect list"

text \<open>The module as loaded: \<open>__ping = null\<close>, \<open>__close = true\<close>, \<open>__socket = null\<close>,
  \<open>__services = {}\<close>.\<close>

definition init_state :: state where
  "init_state =
     \<lparr>ping = None, close = True, socket = Sock_null, services = [], res_data = None,
      timers = [], next_timer = 1, timeouts = 0, requests = 0, effects = []\<rparr>"

definition emit :: "effect \<Rightarrow> state \<Rightarrow> state" where
  "emit e st = st\<lparr>effects := effects st @ [e]\<rparr>"

text \<open>How a call ends: it returns, it throws, or it goes on inside a built-in object of
  the runtime that the registry inherits under the given service name. There the code
  reads, and in \<open>_addTrack\<close> writes, the properties of that built-in object (of
  \<open>Object.prototype\<close> itself for the name \<open>__proto__\<close>) and then goes on or throws; what
  it finds depends on the engine's built-ins, and what it stores is not in the state.
  \<open>Into_builtin\<close> marks the point where the description of the call ends: the state given
  with it holds the module variables as they are at that point, and says nothing of the
  rest of the call.\<close>

datatype completion = Normal | Throw js_error | Into_builtin

subsection \<open>Timers and the socket\<close>

text \<open>\<open>setInterval\<close> returns a fresh handle and starts the interval; \<open>clearInterval\<close> stops
  the interval of a handle and leaves every variable that holds the handle as it is. A
  handle is a positive number or an object: in a condition it counts as true.\<close>

definition setInterval :: "int \<Rightarrow> state \<Rightarrow> nat \<times> state" where
  "setInterval ms st =
     (let h = next_timer st
      in (h, emit (Set_interval h ms) (st\<lparr>timers := timers st @ [h], next_timer := Suc h\<rparr>)))"

definition clearInterval :: "nat option \<Rightarrow> state \<Rightarrow> state" where
  "clearInterval p st =
     (case p of
        None \<Rightarrow> st
      | Some h \<Rightarrow> emit (Clear_interval h) (st\<lparr>timers := removeAll h (timers st)\<rparr>))"

definition setTimeout :: "int \<Rightarrow> state \<Rightarrow> state" where
  "setTimeout ms st = emit (Set_timeout ms) (st\<lparr>timeouts := Suc (timeouts st)\<rparr>)"

text \<open>\<open>send\<close> of a socket object: a connecting socket throws, an open socket transmits,
  a closing or closed socket drops the data.\<close>

definition sock_send :: "nat \<Rightarrow> wire \<Rightarrow> state \<Rightarrow> completion \<times> state" where
  "sock_send rs w st =
     (if rs = 0 then (Throw InvalidStateError, st)
      else if rs = 1 then (Normal, emit (Send w) st)
      else (Normal, st))"

text \<open>\<open>close(code, reason)\<close> of a socket object: a connecting or open socket starts
  closing.\<close>

definition sock_close :: "nat \<Rightarrow> int \<Rightarrow> string \<Rightarrow> state \<Rightarrow> state" where
  "sock_close rs code reason st =
     emit (Close_socket code reason) (st\<lparr>socket := Sock (if rs \<le> 1 then 2 else rs)\<rparr>)"

subsection \<open>The private functions\<close>

text \<open>
  \<open>_addTrack\<close>. When the service name is inherited and not an own property, no entry is
  made and the callback is stored on the built-in object of that name, which is where
  the description ends (\<open>Into_builtin\<close>). When the key is inherited by the service's
  object, the inherited value has no \<open>push\<close> and the call throws, after the service's
  entry has been made.
\<close>

definition addTrack :: "string \<Rightarrow> string \<Rightarrow> callback \<Rightarrow> state \<Rightarrow> completion \<times> state" where
  "addTrack service key callback st =
     (let st1 = (if \<not> in_object service (services st)
                 then st\<lparr>services := set_prop service [] (services st)\<rparr> else st)
      in case map_of (services st1) service of
           None \<Rightarrow> (Into_builtin, st1)
         | Some tbl \<Rightarrow>
             if \<not> in_object key tbl
             then (Normal, st1\<lparr>services :=
                     set_prop service (set_prop key [callback] tbl) (services st1)\<rparr>)
             else (case map_of tbl key of
                     None \<Rightarrow> (Throw TypeError, st1)
                   | Some cbs \<Rightarrow>
                       (Normal, st1\<lparr>services :=
                          set_prop service (set_prop key (cbs @ [callback]) tbl) (services st1)\<rparr>)))"

text \<open>\<open>_handleClose\<close>\<close>

definition handleClose :: "state \<Rightarrow> state" where
  "handleClose st =
     (let st1 = (case ping st of Some h \<Rightarrow> clearInterval (Some h) st | None \<Rightarrow> st)
      in if close st1 then st1\<lparr>socket := Sock_null\<rparr>
         else setTimeout 5000 (st1\<lparr>close := True\<rparr>))"

text \<open>The data of a message event: a string, or a value of another type.\<close>

datatype js_type = Ty_undefined | Ty_object | Ty_boolean | Ty_number | Ty_bigint
  | Ty_symbol | Ty_function

fun typeof :: "js_type \<Rightarrow> string" where
  "typeof Ty_undefined = ''undefined''"
| "typeof Ty_object = ''object''"
| "typeof Ty_boolean = ''boolean''"
| "typeof Ty_number = ''number''"
| "typeof Ty_bigint = ''bigint''"
| "typeof Ty_symbol = ''symbol''"
| "typeof Ty_function = ''function''"

datatype ev_data = Text string | Other js_type

text \<open>The loop \<open>for (let f of list) f(oMsg.data)\<close> over the callbacks of a key.\<close>

fun call_each :: "callback list \<Rightarrow> json option \<Rightarrow> state \<Rightarrow> state" where
  "call_each [] d st = st"
| "call_each (f # fs) d st = call_each fs d (emit (Call f d) st)"

text \<open>The part of \<open>_handleMessage\<close> after the message has been decoded.\<close>

definition handleDecoded :: "json \<Rightarrow> state \<Rightarrow> completion \<times> state" where
  "handleDecoded oMsg st =
     (if oMsg = JNull then (Throw TypeError, st)
      else if truthy (property oMsg ''error'')
      then (case property oMsg ''error'' of
              None \<Rightarrow> (Throw TypeError, st)
            | Some e \<Rightarrow>
               (case show_value (property e ''msg'') of
                  None \<Rightarrow> (Throw TypeError, st)
                | Some m \<Rightarrow>
                   (case show_value (property e ''code'') of
                      None \<Rightarrow> (Throw TypeError, st)
                    | Some c \<Rightarrow>
                       (Normal, emit (Trigger ''error''
                          (''twoway: Websocket failed: '' @ m @ '' ('' @ c @ '')'')) st))))
      else (case show_value (property oMsg ''service'') of
              None \<Rightarrow> (Throw TypeError, st)
            | Some s \<Rightarrow>
               if in_object s (services st)
               then (case map_of (services st) s of
                       None \<Rightarrow> (Into_builtin, st)
                     | Some tbl \<Rightarrow>
                        (case show_value (property oMsg ''key'') of
                           None \<Rightarrow> (Throw TypeError, st)
                         | Some k \<Rightarrow>
                            if in_object k tbl
                            then (case map_of tbl k of
                                    None \<Rightarrow> (Throw TypeError, st)
                                  | Some cbs \<Rightarrow> (Normal, call_each cbs (property oMsg ''data'') st))
                            else (Normal, st)))
               else (Normal, st)))"

text \<open>\<open>_handleMessage\<close>, given the runtime's \<open>JSON.parse\<close>. For data that is not a string
  the error is triggered and \<open>oMsg\<close> is still undefined when its \<open>error\<close> is read.\<close>

definition handleMessage :: "decoder \<Rightarrow> ev_data \<Rightarrow> state \<Rightarrow> completion \<times> state" where
  "handleMessage JSON_parse data st =
     (case data of
        Text s \<Rightarrow>
          if s = ''authorized'' then (Normal, st\<lparr>close := False\<rparr>)
          else if s = ''pong'' then (Normal, st)
          else (case JSON_parse s of
                  None \<Rightarrow> (Throw SyntaxError, st)
                | Some oMsg \<Rightarrow> handleDecoded oMsg st)
      | Other ty \<Rightarrow>
          (Throw TypeError,
           emit (Trigger ''error''
             (''twoway: websocket failed, got unknown data: '' @ typeof ty)) st))"

text \<open>\<open>_openSocket\<close> asks the backend for the key of a new connection; the rest runs when
  the answer \<open>res\<close> arrives.\<close>

definition openSocket :: "state \<Rightarrow> state" where
  "openSocket st = emit Rest_read (st\<lparr>requests := Suc (requests st)\<rparr>)"

text \<open>The continuation of \<open>_openSocket\<close>: the socket is made by \<open>wshelper\<close>, which returns
  \<open>false\<close> where the runtime has no \<open>WebSocket\<close>; then the keepalive interval is set up
  unless \<open>__ping\<close> holds a handle.\<close>

definition openSocket_then :: "json option \<Rightarrow> bool \<Rightarrow> state \<Rightarrow> state" where
  "openSocket_then res supported st =
     (if \<not> supported
      then emit (Trigger ''error'' ''twoway: Websockets not supported'')
             (st\<lparr>socket := Sock_false\<rparr>)
      else (let st1 = emit New_websocket (st\<lparr>socket := Sock 0, res_data := res\<rparr>)
            in if ping st1 = None
               then (let (h, st2) = setInterval 300000 st1 in st2\<lparr>ping := Some h\<rparr>)
               else st1))"

text \<open>The \<open>open\<close> hook given to \<open>wshelper\<close>: the two loops over the registry, then one
  \<open>send\<close> on the socket that has opened.\<close>

fun track_keys :: "string \<Rightarrow> string list \<Rightarrow> frame list \<Rightarrow> frame list" where
  "track_keys s [] lMsgs = lMsgs"
| "track_keys s (k # ks) lMsgs = track_keys s ks (lMsgs @ [Track s k])"

fun track_services :: "registry \<Rightarrow> string list \<Rightarrow> frame list \<Rightarrow> frame list" where
  "track_services reg [] lMsgs = lMsgs"
| "track_services reg (s # ss) lMsgs =
     track_services reg ss
       (track_keys s (case map_of reg s of None \<Rightarrow> [] | Some tbl \<Rightarrow> for_in tbl) lMsgs)"

definition open_hook :: "state \<Rightarrow> state" where
  "open_hook st =
     emit (Send (Batch (track_services (services st) (for_in (services st))
                          [Connect (res_data st)]))) st"

text \<open>\<open>_ping\<close>, the function of the keepalive interval.\<close>

definition ping_tick :: "state \<Rightarrow> completion \<times> state" where
  "ping_tick st =
     (case socket st of
        Sock rs \<Rightarrow> sock_send rs (Single Ping) st
      | _ \<Rightarrow> (Throw TypeError, st))"

subsection \<open>The public functions\<close>

definition track :: "string \<Rightarrow> string \<Rightarrow> callback \<Rightarrow> state \<Rightarrow> completion \<times> state" where
  "track service key callback st =
     (case addTrack service key callback st of
        (Normal, st1) \<Rightarrow>
          (case socket st1 of
             Sock_null \<Rightarrow> (Normal, openSocket (st1\<lparr>socket := Sock_false\<rparr>))
           | Sock_false \<Rightarrow> (Normal, st1)
           | Sock rs \<Rightarrow>
               if rs = 1 then sock_send rs (Single (Track service key)) st1
               else (Normal, st1))
      | (c, st1) \<Rightarrow> (c, st1))"

text \<open>The loop of \<open>untrack\<close> over the callbacks of a key: the index of the first callback
  that is the given one.\<close>

fun find_callback :: "callback \<Rightarrow> callback list \<Rightarrow> nat \<Rightarrow> nat option" where
  "find_callback callback [] i = None"
| "find_callback callback (f # fs) i =
     (if callback = f then Some i else find_callback callback fs (Suc i))"

text \<open>\<open>list.splice(i, 1)\<close>\<close>

definition splice1 :: "nat \<Rightarrow> 'a list \<Rightarrow> 'a list" where
  "splice1 i xs = take i xs @ drop (Suc i) xs"

text \<open>What \<open>untrack\<close> does once the last callback of a key has been removed.\<close>

definition untrack_last :: "string \<Rightarrow> string \<Rightarrow> callback list object \<Rightarrow> state \<Rightarrow> state" where
  "untrack_last service key tbl st =
     (let st1 = (case socket st of
                   Sock rs \<Rightarrow> if rs = 1 then snd (sock_send rs (Single (Untrack service key)) st)
                              else st
                 | _ \<Rightarrow> st);
          tbl1 = delete_prop key tbl
      in if empty tbl1
         then (let st2 = st1\<lparr>services := delete_prop service (services st1)\<rparr>
               in if empty (services st2)
                  then (let st3 = (clearInterval (ping st2) st2)\<lparr>ping := None, close := True\<rparr>
                        in case socket st3 of
                             Sock rs \<Rightarrow> sock_close rs 1000 ''nothing else to track'' st3
                           | _ \<Rightarrow> st3)
                  else st2)
         else st1\<lparr>services := set_prop service tbl1 (services st1)\<rparr>)"

text \<open>\<open>untrack\<close>. An inherited key of a service's object holds a built-in function or the
  prototype object, in which the loop finds no callback. The result is a triple: how
  the call ends, the value returned, the state.\<close>

definition untrack :: "string \<Rightarrow> string \<Rightarrow> callback \<Rightarrow> state \<Rightarrow> completion \<times> bool \<times> state" where
  "untrack service key callback st =
     (if in_object service (services st)
      then (case map_of (services st) service of
              None \<Rightarrow> (Into_builtin, False, st)
            | Some tbl \<Rightarrow>
                if in_object key tbl
                then (case map_of tbl key of
                        None \<Rightarrow> (Normal, False, st)
                      | Some cbs \<Rightarrow>
                          (case find_callback callback cbs 0 of
                             None \<Rightarrow> (Normal, False, st)
                           | Some i \<Rightarrow>
                               (let cbs1 = splice1 i cbs
                                in if length cbs1 = 0
                                   then (Normal, True, untrack_last service key tbl st)
                                   else (Normal, True,
                                         st\<lparr>services :=
                                           set_prop service (set_prop key cbs1 tbl) (services st)\<rparr>))))
                else (Normal, False, st))
      else (Normal, False, st))"

subsection \<open>The module driven by its environment\<close>

text \<open>
  What can happen to the module: a call of \<open>track\<close> or \<open>untrack\<close>, the answer to the
  request of \<open>_openSocket\<close> (with the key, and whether the runtime has websockets), the
  socket's \<open>open\<close>, \<open>message\<close> and \<open>close\<close> notifications, the reconnect timeout and a
  tick of an interval. A notification needs a socket object, a timeout or an answer
  needs one pending, and an interval ticks only while it has not been cleared.
\<close>

datatype event =
    E_track string string callback
  | E_untrack string string callback
  | E_response "json option" bool
  | E_open
  | E_message ev_data
  | E_close
  | E_timeout
  | E_tick nat

fun step :: "decoder \<Rightarrow> event \<Rightarrow> state \<Rightarrow> state" where
  "step P (E_track s k f) st = snd (track s k f st)"
| "step P (E_untrack s k f) st = snd (snd (untrack s k f st))"
| "step P (E_response res ok) st =
     (if requests st = 0 then st
      else openSocket_then res ok (st\<lparr>requests := requests st - 1\<rparr>))"
| "step P E_open st =
     (case socket st of
        Sock rs \<Rightarrow> if rs = 0 then open_hook (st\<lparr>socket := Sock 1\<rparr>) else st
      | _ \<Rightarrow> st)"
| "step P (E_message d) st =
     (case socket st of Sock rs \<Rightarrow> snd (handleMessage P d st) | _ \<Rightarrow> st)"
| "step P E_close st =
     (case socket st of
        Sock rs \<Rightarrow> if rs = 3 then st else handleClose (st\<lparr>socket := Sock 3\<rparr>)
      | _ \<Rightarrow> st)"
| "step P E_timeout st =
     (if timeouts st = 0 then st else openSocket (st\<lparr>timeouts := timeouts st - 1\<rparr>))"
| "step P (E_tick h) st = (if h \<in> set (timers st) then snd (ping_tick st) else st)"

fun run :: "decoder \<Rightarrow> event list \<Rightarrow> state \<Rightarrow> state" where
  "run P [] st = st"
| "run P (e # es) st = run P es (step P e st)"

text \<open>An event whose service name the registry inherits is outside what \<open>step\<close>
  describes.\<close>

fun modelled :: "event \<Rightarrow> bool" where
  "modelled (E_track s k f) = (\<not> inherited s)"
| "modelled (E_untrack s k f) = (\<not> inherited s)"
| "modelled _ = True"

text \<open>A decoder given by a table of texts, for concrete scenarios; a text outside the
  table does not decode.\<close>

definition JSON_table :: "(string \<times> json) list \<Rightarrow> decoder" where
  "JSON_table tbl s = map_of tbl s"

subsection \<open>The connection states of the specification\<close>

text \<open>
  The specification names four states. Read off the module variables: no socket is
  \<open>Closed\<close>; an open under way (\<open>__socket\<close> false, or a socket still connecting) is
  \<open>Connecting\<close>; an open socket is \<open>Open_Authorized\<close> once \<open>authorized\<close> has reset the
  close flag and \<open>Open_Unauthorized\<close> before; a socket closing or closed is \<open>Closed\<close>.
\<close>

datatype conn_state = Closed | Connecting | Open_Unauthorized | Open_Authorized

definition conn_state :: "state \<Rightarrow> conn_state" where
  "conn_state st =
     (case socket st of
        Sock_null \<Rightarrow> Closed
      | Sock_false \<Rightarrow> Connecting
      | Sock rs \<Rightarrow>
          if rs = 0 then Connecting
          else if rs = 1 then (if close st then Open_Unauthorized else Open_Authorized)
          else Closed)"

subsection \<open>Notions used in the statements\<close>

text \<open>A registry as objects are: no property name twice in an object.\<close>

definition wf_registry :: "registry \<Rightarrow> bool" where
  "wf_registry reg =
     (distinct (map fst reg) \<and> list_all (\<lambda>p. distinct (map fst (snd p))) reg)"

text \<open>The pruning invariant of the specification: no service without a key, no key
  without a callback.\<close>

definition pruned :: "registry \<Rightarrow> bool" where
  "pruned reg =
     list_all (\<lambda>p. snd p \<noteq> [] \<and> list_all (\<lambda>q. snd q \<noteq> []) (snd p)) reg"

text \<open>The topics of the specification: the pairs of a service and a key in the registry,
  in the order in which the loops \<open>for (s in __services)\<close>, \<open>for (k in __services[s])\<close>
  visit them.\<close>

definition snapshotTopics :: "registry \<Rightarrow> (string \<times> string) list" where
  "snapshotTopics reg =
     concat (map (\<lambda>s. map (Pair s) (case map_of reg s of None \<Rightarrow> [] | Some tbl \<Rightarrow> for_in tbl))
                 (for_in reg))"

definition is_timeout :: "effect \<Rightarrow> bool" where
  "is_timeout e = (case e of Set_timeout ms \<Rightarrow> True | _ \<Rightarrow> False)"

text \<open>A state for examples: one topic tracked, the socket open and authorized, the
  keepalive interval running.\<close>

definition authorized_state :: state where
  "authorized_state =
     \<lparr>ping = Some 1, close = False, socket = Sock 1,
      services = [(''chat'', [(''room1'', [1])])], res_data = Some (JStr ''k1''),
      timers = [1], next_timer = 2, timeouts = 0, requests = 0,
      effects = [Rest_read, New_websocket, Set_interval 1 300000,
                 Send (Batch [Connect (Some (JStr ''k1'')), Track ''chat'' ''room1''])]\<rparr>"

text \<open>A state for examples: three topics tracked, the socket just open.\<close>

definition three_topics_state :: state where
  "three_topics_state =
     \<lparr>ping = Some 1, close = True, socket = Sock 1,
      services = [(''chat'', [(''room1'', [1]), (''7'', [2])]), (''news'', [(''top'', [3])])],
      res_data = Some (JStr ''k1''), timers = [1], next_timer = 2, timeouts = 0, requests = 0,
      effects = [Rest_read, New_websocket, Set_interval 1 300000]\<rparr>"

text \<open>The effects of the keepalive: an interval set, a ping sent.\<close>

definition is_keepalive :: "effect \<Rightarrow> bool" where
  "is_keepalive e =
     (case e of Set_interval h ms \<Rightarrow> True | Send w \<Rightarrow> w = Single Ping | _ \<Rightarrow> False)"

text \<open>A state whose keepalive handle is set while no interval runs.\<close>

definition stale :: "state \<Rightarrow> bool" where
  "stale st = (ping st \<noteq> None \<and> timers st = [])"

text \<open>The only interval the module ever starts is the one whose handle \<open>__ping\<close> holds.\<close>

definition timers_ok :: "state \<Rightarrow> bool" where
  "timers_ok st = (set (timers st) \<subseteq> set_option (ping st))"

text \<open>The registry is not empty before, between and after the events.\<close>

fun stays_tracked :: "decoder \<Rightarrow> event list \<Rightarrow> state \<Rightarrow> bool" where
  "stays_tracked P [] st = (services st \<noteq> [])"
| "stays_tracked P (e # es) st = (services st \<noteq> [] \<and> stays_tracked P es (step P e st))"

text \<open>What the keepalive consists of in a state.\<close>

definition keepalive :: "state \<Rightarrow> nat option \<times> nat list \<times> effect list" where
  "keepalive st = (ping st, timers st, filter is_keepalive (effects st))"

text \<open>The state for examples after the socket was lost and opened again: the handle of
  the cleared interval is still in \<open>__ping\<close>.\<close>

definition reconnected_state :: state where
  "reconnected_state =
     \<lparr>ping = Some 1, close = True, socket = Sock 1,
      services = [(''chat'', [(''room1'', [1])])], res_data = Some (JStr ''k2''),
      timers = [], next_timer = 2, timeouts = 0, requests = 0,
      effects = [Rest_read, New_websocket, Set_interval 1 300000,
                 Send (Batch [Connect (Some (JStr ''k1'')), Track ''chat'' ''room1'']),
                 Clear_interval 1, Set_timeout 5000, Rest_read, New_websocket,
                 Send (Batch [Connect (Some (JStr ''k2'')), Track ''chat'' ''room1''])]\<rparr>"

text \<open>The error the handler triggers for data that is not a string.\<close>

definition unknown_data_prefix :: string where
  "unknown_data_prefix = ''twoway: websocket failed, got unknown data: ''"

definition is_unknown_data :: "effect \<Rightarrow> bool" where
  "is_unknown_data e =
     (case e of
        Trigger kind m \<Rightarrow> take (length unknown_data_prefix) m = unknown_data_prefix
      | _ \<Rightarrow> False)"

text \<open>The frames sent and the closes asked of the socket, among the effects.\<close>

fun wires :: "effect list \<Rightarrow> wire list" where
  "wires [] = []"
| "wires (Send w # es) = w # wires es"
| "wires (e # es) = wires es"

fun closes :: "effect list \<Rightarrow> (int \<times> string) list" where
  "closes [] = []"
| "closes (Close_socket code reason # es) = (code, reason) # closes es"
| "closes (e # es) = closes es"

text \<open>The registry after \<open>_addTrack\<close>, for names that are not inherited.\<close>

definition add_callback :: "string \<Rightarrow> string \<Rightarrow> callback \<Rightarrow> registry \<Rightarrow> registry" where
  "add_callback s k f reg =
     (let tbl = (case map_of reg s of None \<Rightarrow> [] | Some t \<Rightarrow> t)
      in set_prop s
           (set_prop k (case map_of tbl k of None \<Rightarrow> [f] | Some cbs \<Rightarrow> cbs @ [f]) tbl)
           reg)"

text \<open>A state for examples: one topic tracked, the socket open, \<open>authorized\<close> not yet
  received.\<close>

definition opened_state :: state where
  "opened_state =
     \<lparr>ping = Some 1, close = True, socket = Sock 1,
      services = [(''chat'', [(''room1'', [1])])], res_data = Some (JStr ''k1''),
      timers = [1], next_timer = 2, timeouts = 0, requests = 0,
      effects = [Rest_read, New_websocket, Set_interval 1 300000,
                 Send (Batch [Connect (Some (JStr ''k1'')), Track ''chat'' ''room1''])]\<rparr>"

text \<open>A call of \<open>track\<close> or \<open>untrack\<close> whose names are no inherited property names (for
  \<open>untrack\<close> the key may be one: it is then not found).\<close>

fun plain_call :: "event \<Rightarrow> bool" where
  "plain_call (E_track s k f) = (\<not> inherited s \<and> \<not> inherited k)"
| "plain_call (E_untrack s k f) = (\<not> inherited s)"
| "plain_call _ = True"

text \<open>Events in which every message arrives while the socket is open, as the websocket
  interface of browsers has it.\<close>

fun in_order :: "decoder \<Rightarrow> event list \<Rightarrow> state \<Rightarrow> bool" where
  "in_order P [] st = True"
| "in_order P (e # es) st =
     ((case e of E_message d \<Rightarrow> socket st = Sock 1 | _ \<Rightarrow> True) \<and> in_order P es (step P e st))"

text \<open>Once \<open>authorized\<close> has reset the close flag, or while the socket is connecting or
  open, \<open>__ping\<close> holds a handle.\<close>

definition handle_kept :: "state \<Rightarrow> bool" where
  "handle_kept st =
     ((\<not> close st \<or> socket st = Sock 0 \<or> socket st = Sock 1) \<longrightarrow> ping st \<noteq> None)"

text \<open>The variables that \<open>handle_kept\<close> reads.\<close>

definition link :: "state \<Rightarrow> nat option \<times> bool \<times> socket" where
  "link st = (ping st, close st, socket st)"

section \<open>Properties\<close>

subsection \<open>Objects and their enumeration\<close>

lemma has_own_iff: "has_own k obj = (k \<in> fst ` set obj)"
  by (simp add: has_own_def map_of_eq_None_iff)

lemma map_of_Some_fst: "map_of obj k = Some v \<Longrightarrow> k \<in> fst ` set obj"
  by (meson domI domIff map_of_eq_None_iff)

lemma set_for_in: "set (for_in obj) = fst ` set obj"
  by (auto simp: for_in_def Let_def)

lemma distinct_partition:
  "distinct (filter P xs @ filter (\<lambda>x. \<not> P x) xs) = distinct xs"
  by (induction xs) auto

lemma distinct_for_in: "distinct (for_in obj) = distinct (map fst obj)"
proof -
  have "distinct (for_in obj) =
        distinct (filter is_array_index (map fst obj) @
                  filter (\<lambda>k. \<not> is_array_index k) (map fst obj))"
    by (auto simp: for_in_def Let_def)
  then show ?thesis by (simp only: distinct_partition)
qed

lemma distinct_pairs:
  "distinct ss \<Longrightarrow> (\<forall>s\<in>set ss. distinct (g s)) \<Longrightarrow>
     distinct (concat (map (\<lambda>s. map (Pair s) (g s)) ss))"
  by (induction ss) (auto simp: distinct_map inj_on_def)

lemma set_pairs:
  "set (concat (map (\<lambda>s. map (Pair s) (g s)) ss)) = {(s, k). s \<in> set ss \<and> k \<in> set (g s)}"
  by auto

lemma set_snapshotTopics:
  "set (snapshotTopics reg) =
     {(s, k). \<exists>tbl. map_of reg s = Some tbl \<and> has_own k tbl}"
proof -
  have "(s \<in> fst ` set reg \<and>
         k \<in> set (case map_of reg s of None \<Rightarrow> [] | Some tbl \<Rightarrow> for_in tbl)) =
        (\<exists>tbl. map_of reg s = Some tbl \<and> has_own k tbl)" for s k
    by (cases "map_of reg s") (auto simp: set_for_in has_own_iff dest: map_of_Some_fst)
  then show ?thesis
    unfolding snapshotTopics_def set_pairs set_for_in by simp
qed

lemma distinct_snapshotTopics:
  assumes "wf_registry reg"
  shows "distinct (snapshotTopics reg)"
proof -
  have d: "distinct (for_in reg)"
    using assms by (simp add: wf_registry_def distinct_for_in)
  have t: "distinct (for_in tbl)" if "map_of reg s = Some tbl" for s tbl
  proof -
    from that have "(s, tbl) \<in> set reg" by (rule map_of_SomeD)
    with assms show ?thesis
      by (auto simp: wf_registry_def distinct_for_in list_all_iff)
  qed
  show ?thesis
    unfolding snapshotTopics_def
    by (rule distinct_pairs [OF d]) (auto split: option.splits simp: t)
qed

subsection \<open>The batch sent when the socket opens\<close>

lemma track_keys_eq: "track_keys s ks lMsgs = lMsgs @ map (Track s) ks"
  by (induction ks arbitrary: lMsgs) simp_all

lemma track_services_eq:
  "track_services reg ss lMsgs =
     lMsgs @ concat (map (\<lambda>s. map (Track s)
        (case map_of reg s of None \<Rightarrow> [] | Some tbl \<Rightarrow> for_in tbl)) ss)"
  by (induction ss arbitrary: lMsgs) (simp_all add: track_keys_eq)

lemma open_hook_batch:
  "open_hook st =
     st\<lparr>effects := effects st @
        [Send (Batch (Connect (res_data st) #
                      map (\<lambda>(s, k). Track s k) (snapshotTopics (services st))))]\<rparr>"
  by (simp add: open_hook_def emit_def track_services_eq snapshotTopics_def map_concat
      comp_def)

text \<open>
  The batch of the registry's own properties. As long as no property has been stored on
  \<open>Object.prototype\<close>, the hook sends one batch and nothing else: the connect frame with
  the key of the handshake, then one track frame for each pair of a service and a key of
  the registry, each pair once, in the order of the registry's enumeration.
\<close>

lemma open_hook_own_topics:
  assumes "wf_registry (services st)"
  shows "effects (open_hook st) =
           effects st @
           [Send (Batch (Connect (res_data st) #
                         map (\<lambda>(s, k). Track s k) (snapshotTopics (services st))))]
         \<and> distinct (snapshotTopics (services st))
         \<and> set (snapshotTopics (services st)) =
             {(s, k). \<exists>tbl. map_of (services st) s = Some tbl \<and> has_own k tbl}
         \<and> services (open_hook st) = services st"
  using assms
  by (simp add: open_hook_batch distinct_snapshotTopics set_snapshotTopics)

lemma open_hook_three_topics:
  "wf_registry (services three_topics_state) \<and>
   effects (open_hook three_topics_state) =
     [Rest_read, New_websocket, Set_interval 1 300000,
      Send (Batch [Connect (Some (JStr ''k1'')), Track ''chat'' ''7'', Track ''chat'' ''room1'',
                   Track ''news'' ''top''])]"
proof -
  have wf: "wf_registry (services three_topics_state)"
    by (simp add: three_topics_state_def wf_registry_def)
  have topics: "snapshotTopics (services three_topics_state) =
      [(''chat'', ''7''), (''chat'', ''room1''), (''news'', ''top'')]"
    by code_simp
  from open_hook_own_topics [OF wf] have
    "effects (open_hook three_topics_state) =
       effects three_topics_state @
       [Send (Batch (Connect (res_data three_topics_state) #
          map (\<lambda>(s, k). Track s k) (snapshotTopics (services three_topics_state))))]"
    by simp
  then show ?thesis
    using wf by (simp add: topics) (simp add: three_topics_state_def)
qed

text \<open>
  C5 does not hold of every open. The call \<open>track("__proto__", "x", cb)\<close> on the module as
  loaded finds \<open>"__proto__" in __services\<close> true through the prototype chain, makes no
  entry, and stores \<open>[cb]\<close> as the property \<open>x\<close> of \<open>Object.prototype\<close>, which every
  object then inherits as an enumerable property. When the socket opens, the loop over
  \<open>__services\<close> visits the inherited name \<open>x\<close> and the loop over \<open>__services.x\<close>, the
  array \<open>[cb]\<close>, visits \<open>0\<close> and \<open>x\<close>: the batch is the connect frame followed by track
  frames for \<open>x\<close>, \<open>0\<close> and for \<open>x\<close>, \<open>x\<close>, two pairs that are not in the registry, which
  has no entry at all. This is the defect of C6 and C8, \<open>in\<close> used as a test for own
  properties. The run is outside the state described here from its first call on.
\<close>

subsection \<open>Messages that are not strings\<close>

text \<open>
  C10. For a message whose data is not a string, whatever its type, the handler triggers
  the one error "unknown data" and then throws a \<open>TypeError\<close>, reading \<open>error\<close> of the
  message that was never decoded; it does not return.
\<close>

theorem handleMessage_non_string:
  "handleMessage JSON_parse (Other ty) st =
     (Throw TypeError,
      st\<lparr>effects := effects st @
         [Trigger ''error'' (''twoway: websocket failed, got unknown data: '' @ typeof ty)]\<rparr>)"
  by (simp add: handleMessage_def emit_def)

subsection \<open>The close of the socket\<close>

lemma handleClose_valid:
  assumes "close st"
  shows "handleClose st =
     st\<lparr>socket := Sock_null,
        timers := (case ping st of None \<Rightarrow> timers st | Some h \<Rightarrow> removeAll h (timers st)),
        effects := effects st @ (case ping st of None \<Rightarrow> [] | Some h \<Rightarrow> [Clear_interval h])\<rparr>"
  using assms by (cases "ping st") (simp_all add: handleClose_def clearInterval_def emit_def)

lemma handleClose_reconnect:
  assumes "\<not> close st"
  shows "handleClose st =
     st\<lparr>close := True, timeouts := Suc (timeouts st),
        timers := (case ping st of None \<Rightarrow> timers st | Some h \<Rightarrow> removeAll h (timers st)),
        effects := effects st @ (case ping st of None \<Rightarrow> [] | Some h \<Rightarrow> [Clear_interval h])
                    @ [Set_timeout 5000]\<rparr>"
  using assms
  by (cases "ping st") (simp_all add: handleClose_def clearInterval_def emit_def setTimeout_def)

text \<open>
  C3. On a close notification with the close flag set, the socket variable is reset to
  \<open>null\<close> (the state \<open>Closed\<close>) and no timeout is set. With the flag not set, the flag is
  set again and exactly one timeout of 5000 ms is set, which calls \<open>_openSocket\<close> when it
  fires.
\<close>

theorem handleClose_by_flag:
  "(close st \<longrightarrow>
      socket (handleClose st) = Sock_null \<and> conn_state (handleClose st) = Closed \<and>
      timeouts (handleClose st) = timeouts st \<and>
      filter is_timeout (effects (handleClose st)) = filter is_timeout (effects st)) \<and>
   (\<not> close st \<longrightarrow>
      close (handleClose st) \<and> socket (handleClose st) = socket st \<and>
      timeouts (handleClose st) = Suc (timeouts st) \<and>
      filter is_timeout (effects (handleClose st)) =
        filter is_timeout (effects st) @ [Set_timeout 5000] \<and>
      step JSON_parse E_timeout (handleClose st) =
        openSocket ((handleClose st)\<lparr>timeouts := timeouts st\<rparr>))"
proof (cases "close st")
  case True
  then show ?thesis
    by (cases "ping st") (simp_all add: handleClose_valid conn_state_def is_timeout_def)
next
  case False
  then show ?thesis
    by (cases "ping st") (simp_all add: handleClose_reconnect is_timeout_def)
qed

theorem handleClose_by_flag_witness:
  "close three_topics_state \<and>
   socket (handleClose three_topics_state) = Sock_null \<and>
   filter is_timeout (effects (handleClose three_topics_state)) = [] \<and>
   \<not> close authorized_state \<and>
   close (handleClose authorized_state) \<and>
   timeouts (handleClose authorized_state) = 1 \<and>
   filter is_timeout (effects (handleClose authorized_state)) = [Set_timeout 5000]"
proof -
  have a: "close three_topics_state" "filter is_timeout (effects three_topics_state) = []"
    by (simp_all add: three_topics_state_def is_timeout_def)
  have b: "\<not> close authorized_state" "timeouts authorized_state = 0"
    "filter is_timeout (effects authorized_state) = []"
    by (simp_all add: authorized_state_def is_timeout_def)
  show ?thesis
    using handleClose_by_flag [of three_topics_state]
      handleClose_by_flag [of authorized_state] a b
    by simp
qed

subsection \<open>The keepalive after a close\<close>

lemma keepalive_simps [simp]:
  "keepalive (st\<lparr>services := r\<rparr>) = keepalive st"
  "keepalive (st\<lparr>socket := s\<rparr>) = keepalive st"
  "keepalive (st\<lparr>close := c\<rparr>) = keepalive st"
  "keepalive (st\<lparr>requests := n\<rparr>) = keepalive st"
  "keepalive (st\<lparr>timeouts := n\<rparr>) = keepalive st"
  "keepalive (st\<lparr>res_data := d\<rparr>) = keepalive st"
  by (simp_all add: keepalive_def)

lemma keepalive_emit:
  "\<not> is_keepalive e \<Longrightarrow> keepalive (emit e st) = keepalive st"
  by (simp add: keepalive_def emit_def)

lemma keepalive_addTrack: "keepalive (snd (addTrack s k f st)) = keepalive st"
  by (simp add: addTrack_def Let_def split: option.splits)

lemma socket_addTrack: "socket (snd (addTrack s k f st)) = socket st"
  by (simp add: addTrack_def Let_def split: option.splits)

lemma keepalive_track: "keepalive (snd (track s k f st)) = keepalive st"
proof -
  obtain c st1 where a: "addTrack s k f st = (c, st1)" by (cases "addTrack s k f st")
  then have k: "keepalive st1 = keepalive st"
    using keepalive_addTrack [of s k f st] by simp
  show ?thesis
    using k
    by (cases c; cases "socket st1")
       (simp_all add: track_def a openSocket_def sock_send_def keepalive_emit is_keepalive_def)
qed

lemma keepalive_call_each: "keepalive (call_each fs d st) = keepalive st"
  by (induction fs arbitrary: st) (simp_all add: keepalive_emit is_keepalive_def)

lemma keepalive_handleDecoded: "keepalive (snd (handleDecoded m st)) = keepalive st"
  by (simp add: handleDecoded_def keepalive_emit is_keepalive_def keepalive_call_each
      split: option.splits)

lemma keepalive_handleMessage: "keepalive (snd (handleMessage P d st)) = keepalive st"
  by (cases d)
     (simp_all add: handleMessage_def keepalive_emit is_keepalive_def keepalive_handleDecoded
        split: option.splits)

lemma keepalive_open_hook: "keepalive (open_hook st) = keepalive st"
  by (simp add: open_hook_def keepalive_emit is_keepalive_def)

lemma keepalive_openSocket: "keepalive (openSocket st) = keepalive st"
  by (simp add: openSocket_def keepalive_emit is_keepalive_def)

lemma keepalive_openSocket_then:
  "ping st \<noteq> None \<Longrightarrow> keepalive (openSocket_then res ok st) = keepalive st"
  by (auto simp: openSocket_then_def keepalive_emit is_keepalive_def Let_def)
     (simp add: keepalive_def emit_def)


lemma stale_handleClose_any: "stale st \<Longrightarrow> keepalive (handleClose st) = keepalive st"
  by (cases "close st")
     (auto simp: stale_def handleClose_valid handleClose_reconnect keepalive_def is_keepalive_def)

lemma services_untrack_last:
  "services (untrack_last s k tbl st) =
     (if delete_prop k tbl = [] then delete_prop s (services st)
      else set_prop s (delete_prop k tbl) (services st))"
  by (simp add: untrack_last_def Let_def empty_def sock_send_def sock_close_def emit_def
      clearInterval_def split: socket.splits option.splits)

lemma set_prop_not_Nil [simp]: "set_prop k v obj \<noteq> []"
  by (cases obj) (auto split: if_splits)

lemma untrack_last_services:
  assumes "services (untrack_last s k tbl st) \<noteq> []"
  shows "keepalive (untrack_last s k tbl st) = keepalive st"
proof (cases "delete_prop k tbl = []")
  case True
  with assms have "delete_prop s (services st) \<noteq> []"
    by (simp add: services_untrack_last)
  with True show ?thesis
    by (cases "socket st")
       (simp_all add: untrack_last_def Let_def empty_def sock_send_def emit_def
          keepalive_def is_keepalive_def)
next
  case False
  then show ?thesis
    by (cases "socket st")
       (simp_all add: untrack_last_def Let_def empty_def sock_send_def emit_def
          keepalive_def is_keepalive_def)
qed

lemma untrack_cases:
  "snd (snd (untrack s k f st)) = st \<or>
   (\<exists>tbl. snd (snd (untrack s k f st)) = untrack_last s k tbl st) \<or>
   (\<exists>r. snd (snd (untrack s k f st)) = st\<lparr>services := r\<rparr>)"
  by (simp add: untrack_def Let_def split: option.splits) blast

lemma keepalive_untrack:
  assumes "services (snd (snd (untrack s k f st))) \<noteq> []"
  shows "keepalive (snd (snd (untrack s k f st))) = keepalive st"
  using untrack_cases [of s k f st] assms
  by (elim disjE exE) (simp_all add: untrack_last_services)

lemma stale_step:
  assumes "stale st" and "services (step P e st) \<noteq> []"
  shows "keepalive (step P e st) = keepalive st"
proof (cases e)
  case (E_track s k f)
  then show ?thesis by (simp add: keepalive_track)
next
  case (E_untrack s k f)
  then show ?thesis using assms(2) by (simp add: keepalive_untrack)
next
  case (E_response res ok)
  then show ?thesis using assms(1) by (simp add: stale_def keepalive_openSocket_then)
next
  case E_open
  then show ?thesis by (simp add: keepalive_open_hook split: socket.splits)
next
  case (E_message d)
  then show ?thesis by (simp add: keepalive_handleMessage split: socket.splits)
next
  case E_close
  have "stale (st\<lparr>socket := Sock 3\<rparr>)" using assms(1) by (simp add: stale_def)
  from stale_handleClose_any [OF this] E_close show ?thesis
    by (simp split: socket.splits)
next
  case E_timeout
  then show ?thesis by (simp add: keepalive_openSocket)
next
  case (E_tick h)
  then show ?thesis using assms(1) by (simp add: stale_def)
qed

lemma stale_run:
  assumes "stale st" and "stays_tracked P evs st"
  shows "keepalive (run P evs st) = keepalive st"
  using assms
proof (induction evs arbitrary: st)
  case Nil
  then show ?case by simp
next
  case (Cons e es)
  from Cons.prems(2) have next_tracked: "stays_tracked P es (step P e st)" by simp
  then have "services (step P e st) \<noteq> []" by (cases es) simp_all
  with Cons.prems(1) have k: "keepalive (step P e st) = keepalive st" by (rule stale_step)
  with Cons.prems(1) have "stale (step P e st)" by (simp add: stale_def keepalive_def)
  from Cons.IH [OF this next_tracked] k show ?case by simp
qed

lemma removeAll_only: "set xs \<subseteq> {h} \<Longrightarrow> removeAll h xs = []"
  by (induction xs) auto

lemma handleClose_stale:
  assumes "ping st = Some h" and "timers_ok st"
  shows "stale (handleClose st)" and "ping (handleClose st) = Some h"
proof -
  from assms have "removeAll h (timers st) = []"
    by (simp add: timers_ok_def removeAll_only)
  with assms(1) show "stale (handleClose st)" and "ping (handleClose st) = Some h"
    by (cases "close st"; simp add: stale_def handleClose_valid handleClose_reconnect)+
qed

text \<open>
  C9. The close handler clears the keepalive interval and leaves its handle in
  \<open>__ping\<close>. From then on, whatever happens, as long as the registry does not become
  empty: the handle stays, no interval runs, no interval is set by a later open and no
  ping is sent.
\<close>

theorem no_keepalive_after_close:
  assumes "ping st = Some h" and "timers_ok st"
    and "list_all modelled evs"
    and "stays_tracked P evs (handleClose st)"
  shows "ping (handleClose st) = Some h \<and> timers (handleClose st) = [] \<and>
         ping (run P evs (handleClose st)) = Some h \<and>
         timers (run P evs (handleClose st)) = [] \<and>
         filter is_keepalive (effects (run P evs (handleClose st))) =
           filter is_keepalive (effects st)"
proof -
  have s: "stale (handleClose st)" and p: "ping (handleClose st) = Some h"
    using assms(1,2) by (rule handleClose_stale)+
  have "keepalive (run P evs (handleClose st)) = keepalive (handleClose st)"
    using s assms(4) by (rule stale_run)
  moreover have "filter is_keepalive (effects (handleClose st)) = filter is_keepalive (effects st)"
    by (cases "close st"; cases "ping st")
       (simp_all add: handleClose_valid handleClose_reconnect is_keepalive_def)
  ultimately show ?thesis
    using s p by (simp add: keepalive_def stale_def)
qed

lemma authorized_state_reached:
  "run (JSON_table [])
     [E_track ''chat'' ''room1'' 1, E_response (Some (JStr ''k1'')) True, E_open,
      E_message (Text ''authorized'')] init_state = authorized_state"
  by code_simp

lemma reconnected_state_reached:
  "run (JSON_table []) [E_close, E_timeout, E_response (Some (JStr ''k2'')) True, E_open] authorized_state =
     reconnected_state"
  by code_simp

theorem no_keepalive_after_close_witness:
  "ping authorized_state = Some 1 \<and> timers_ok authorized_state \<and>
   timers (handleClose authorized_state) = [] \<and>
   run (JSON_table [])
     [E_timeout, E_response (Some (JStr ''k2'')) True, E_open, E_message (Text ''authorized''), E_tick 1]
     (handleClose authorized_state)
   = reconnected_state\<lparr>close := False, socket := Sock 1\<rparr> \<and>
   filter is_keepalive (effects (reconnected_state\<lparr>close := False\<rparr>)) =
     filter is_keepalive (effects authorized_state)"
proof -
  let ?evs = "[E_timeout, E_response (Some (JStr ''k2'')) True, E_open, E_message (Text ''authorized''),
               E_tick 1]"
  have a: "ping authorized_state = Some 1" by (simp add: authorized_state_def)
  have b: "timers_ok authorized_state" by (simp add: authorized_state_def timers_ok_def)
  have c: "list_all modelled ?evs" by simp
  have d: "stays_tracked (JSON_table []) ?evs (handleClose authorized_state)" by code_simp
  have e: "run (JSON_table []) ?evs (handleClose authorized_state) =
           reconnected_state\<lparr>close := False, socket := Sock 1\<rparr>" by code_simp
  from no_keepalive_after_close [OF a b c d] e a b show ?thesis by simp
qed

subsection \<open>The message \<open>authorized\<close>\<close>

lemma openSocket_then_fresh:
  assumes "ping st = None"
  shows "openSocket_then res True st =
     st\<lparr>socket := Sock 0, res_data := res, ping := Some (next_timer st),
        timers := timers st @ [next_timer st], next_timer := Suc (next_timer st),
        effects := effects st @ [New_websocket, Set_interval (next_timer st) 300000]\<rparr>"
  using assms by (simp add: openSocket_then_def setInterval_def emit_def Let_def)

lemma openSocket_then_kept:
  assumes "ping st \<noteq> None"
  shows "openSocket_then res True st =
     st\<lparr>socket := Sock 0, res_data := res, effects := effects st @ [New_websocket]\<rparr>"
  using assms by (cases "ping st") (simp_all add: openSocket_then_def emit_def Let_def)




subsection \<open>Messages that are strings\<close>

lemma not_unknown_data [simp]:
  "\<not> is_unknown_data (Trigger kind (''twoway: Websocket failed: '' @ m))"
  "\<not> is_unknown_data (Call f d)"
  by (simp_all add: is_unknown_data_def unknown_data_prefix_def)

lemma unknown_data_call_each:
  "filter is_unknown_data (effects (call_each fs d st)) = filter is_unknown_data (effects st)"
  by (induction fs arbitrary: st) (simp_all add: emit_def)

lemma unknown_data_handleDecoded:
  "filter is_unknown_data (effects (snd (handleDecoded m st))) =
     filter is_unknown_data (effects st)"
  by (simp add: handleDecoded_def emit_def unknown_data_call_each is_unknown_data_def
      unknown_data_prefix_def split: option.splits)

text \<open>
  C2, as the code has it. A string other than \<open>authorized\<close> and \<open>pong\<close> is decoded as
  JSON and never reported as unknown data, whatever it decodes to. If it does not decode,
  the handler throws a \<open>SyntaxError\<close>, with nothing triggered and nothing dispatched. If
  it decodes to \<open>null\<close>, the handler throws a \<open>TypeError\<close>, with nothing triggered and
  nothing dispatched. If it decodes to a value other than \<open>null\<close> whose \<open>error\<close> is absent
  or falsy and whose \<open>service\<close> (undefined when absent) converts to a property name that
  the operator \<open>in\<close> does not find in the registry, neither as a service of the registry
  nor as a name inherited from \<open>Object.prototype\<close>, the handler returns, with nothing
  triggered and nothing dispatched.
\<close>

theorem string_frames_are_decoded:
  assumes "s \<noteq> ''authorized''" and "s \<noteq> ''pong''"
  shows "filter is_unknown_data (effects (snd (handleMessage JSON_parse (Text s) st))) =
           filter is_unknown_data (effects st) \<and>
         (JSON_parse s = None \<longrightarrow>
            handleMessage JSON_parse (Text s) st = (Throw SyntaxError, st)) \<and>
         (JSON_parse s = Some JNull \<longrightarrow>
            handleMessage JSON_parse (Text s) st = (Throw TypeError, st)) \<and>
         (\<forall>oMsg sv. JSON_parse s = Some oMsg \<and> oMsg \<noteq> JNull \<and>
            \<not> truthy (property oMsg ''error'') \<and>
            show_value (property oMsg ''service'') = Some sv \<and>
            \<not> in_object sv (services st) \<longrightarrow>
            handleMessage JSON_parse (Text s) st = (Normal, st))"
proof (intro conjI allI impI)
  show "filter is_unknown_data (effects (snd (handleMessage JSON_parse (Text s) st))) =
          filter is_unknown_data (effects st)"
    using assms
    by (simp add: handleMessage_def unknown_data_handleDecoded split: option.splits)
next
  assume "JSON_parse s = None"
  with assms show "handleMessage JSON_parse (Text s) st = (Throw SyntaxError, st)"
    by (simp add: handleMessage_def)
next
  assume "JSON_parse s = Some JNull"
  with assms show "handleMessage JSON_parse (Text s) st = (Throw TypeError, st)"
    by (simp add: handleMessage_def handleDecoded_def)
next
  fix oMsg sv
  assume "JSON_parse s = Some oMsg \<and> oMsg \<noteq> JNull \<and>
            \<not> truthy (property oMsg ''error'') \<and>
            show_value (property oMsg ''service'') = Some sv \<and>
            \<not> in_object sv (services st)"
  with assms show "handleMessage JSON_parse (Text s) st = (Normal, st)"
    by (simp add: handleMessage_def handleDecoded_def)
qed

theorem string_frames_are_decoded_witness:
  "''hello'' \<noteq> ''authorized'' \<and> ''hello'' \<noteq> ''pong'' \<and>
   JSON_table [(''{}'', JObj []), (''null'', JNull)] ''hello'' = None \<and>
   handleMessage (JSON_table [(''{}'', JObj []), (''null'', JNull)]) (Text ''hello'')
     authorized_state = (Throw SyntaxError, authorized_state) \<and>
   filter is_unknown_data
     (effects (snd (handleMessage (JSON_table [(''{}'', JObj []), (''null'', JNull)])
        (Text ''hello'') authorized_state))) = [] \<and>
   ''null'' \<noteq> ''authorized'' \<and> ''null'' \<noteq> ''pong'' \<and>
   JSON_table [(''{}'', JObj []), (''null'', JNull)] ''null'' = Some JNull \<and>
   handleMessage (JSON_table [(''{}'', JObj []), (''null'', JNull)]) (Text ''null'')
     authorized_state = (Throw TypeError, authorized_state) \<and>
   ''{}'' \<noteq> ''authorized'' \<and> ''{}'' \<noteq> ''pong'' \<and>
   JSON_table [(''{}'', JObj []), (''null'', JNull)] ''{}'' = Some (JObj []) \<and>
   JObj [] \<noteq> JNull \<and> \<not> truthy (property (JObj []) ''error'') \<and>
   show_value (property (JObj []) ''service'') = Some ''undefined'' \<and>
   \<not> in_object ''undefined'' (services authorized_state) \<and>
   handleMessage (JSON_table [(''{}'', JObj []), (''null'', JNull)]) (Text ''{}'')
     authorized_state = (Normal, authorized_state)"
proof -
  let ?P = "JSON_table [(''{}'', JObj []), (''null'', JNull)]"
  have a: "''hello'' \<noteq> ''authorized''" "''hello'' \<noteq> ''pong''" by simp_all
  have b: "''null'' \<noteq> ''authorized''" "''null'' \<noteq> ''pong''" by simp_all
  have c: "''{}'' \<noteq> ''authorized''" "''{}'' \<noteq> ''pong''" by simp_all
  have d: "?P ''hello'' = None" "?P ''null'' = Some JNull" "?P ''{}'' = Some (JObj [])"
    by (simp_all add: JSON_table_def)
  have e: "filter is_unknown_data (effects authorized_state) = []"
    by (simp add: authorized_state_def is_unknown_data_def)
  have f: "JObj [] \<noteq> JNull" "\<not> truthy (property (JObj []) ''error'')"
    "show_value (property (JObj []) ''service'') = Some ''undefined''"
    by (simp_all add: show_value_def)
  have g: "\<not> in_object ''undefined'' (services authorized_state)"
    by (simp add: in_object_def has_own_def inherited_def object_prototype_props_def
        authorized_state_def)
  from string_frames_are_decoded [OF a, of ?P authorized_state] d(1) e
  have h: "handleMessage ?P (Text ''hello'') authorized_state =
             (Throw SyntaxError, authorized_state)"
    "filter is_unknown_data
       (effects (snd (handleMessage ?P (Text ''hello'') authorized_state))) = []"
    by simp_all
  from string_frames_are_decoded [OF b, of ?P authorized_state] d(2)
  have n: "handleMessage ?P (Text ''null'') authorized_state =
             (Throw TypeError, authorized_state)"
    by simp
  from string_frames_are_decoded [OF c, of ?P authorized_state] d(3) f g
  have o: "handleMessage ?P (Text ''{}'') authorized_state = (Normal, authorized_state)"
    by blast
  from a b c d f g h n o show ?thesis by simp
qed

text \<open>
  C2 as stated fails on the string \<open>hello\<close>, which is no JSON text: the handler throws a
  \<open>SyntaxError\<close> and triggers nothing. It fails as well on \<open>{}\<close>, which decodes to an
  object with no field, while no service named \<open>undefined\<close> is tracked: the handler
  returns and triggers nothing.
\<close>

theorem unrecognized_string_throws:
  "handleMessage (JSON_table [(''{}'', JObj [])]) (Text ''hello'') authorized_state =
     (Throw SyntaxError, authorized_state) \<and>
   handleMessage (JSON_table [(''{}'', JObj [])]) (Text ''{}'') authorized_state =
     (Normal, authorized_state)"
  by (simp add: handleMessage_def JSON_table_def handleDecoded_def show_value_def
      in_object_def has_own_def inherited_def object_prototype_props_def authorized_state_def)

subsection \<open>Properties set and deleted\<close>

lemma map_of_set_prop: "map_of (set_prop k v obj) = (map_of obj)(k \<mapsto> v)"
  by (induction k v obj rule: set_prop.induct) auto

lemma fst_set_prop: "fst ` set (set_prop k v obj) = insert k (fst ` set obj)"
  by (induction k v obj rule: set_prop.induct) auto

lemma distinct_set_prop:
  "distinct (map fst obj) \<Longrightarrow> distinct (map fst (set_prop k v obj))"
  by (induction k v obj rule: set_prop.induct) (auto simp: fst_set_prop)

lemma distinct_delete_prop:
  "distinct (map fst obj) \<Longrightarrow> distinct (map fst (delete_prop k obj))"
  by (simp add: delete_prop_def distinct_map_filter)

lemma set_prop_twice [simp]: "set_prop k v (set_prop k w obj) = set_prop k v obj"
  by (induction k w obj rule: set_prop.induct) auto

lemma list_all_set_prop:
  "list_all Q obj \<Longrightarrow> Q (k, v) \<Longrightarrow> list_all Q (set_prop k v obj)"
  by (induction k v obj rule: set_prop.induct) auto

lemma list_all_delete_prop: "list_all Q obj \<Longrightarrow> list_all Q (delete_prop k obj)"
  by (simp add: delete_prop_def list_all_iff)

lemma list_all_map_of: "list_all Q obj \<Longrightarrow> map_of obj k = Some v \<Longrightarrow> Q (k, v)"
  by (auto simp: list_all_iff dest: map_of_SomeD)

lemma wires_append [simp]: "wires (xs @ ys) = wires xs @ wires ys"
  by (induction xs rule: wires.induct) simp_all

lemma closes_append [simp]: "closes (xs @ ys) = closes xs @ closes ys"
  by (induction xs rule: closes.induct) simp_all

subsection \<open>What \<open>track\<close> and \<open>untrack\<close> do\<close>

lemma find_callback_None: "(find_callback f cbs n = None) = (f \<notin> set cbs)"
  by (induction cbs arbitrary: n) auto

lemma find_callback_Some:
  "find_callback f cbs n = Some i \<Longrightarrow> n \<le> i \<and> splice1 (i - n) cbs = remove1 f cbs"
proof (induction cbs arbitrary: n)
  case Nil
  then show ?case by simp
next
  case (Cons g gs)
  show ?case
  proof (cases "f = g")
    case True
    with Cons.prems show ?thesis by (simp add: splice1_def)
  next
    case False
    with Cons.prems have "find_callback f gs (Suc n) = Some i" by simp
    from Cons.IH [OF this] have "Suc n \<le> i" and "splice1 (i - Suc n) gs = remove1 f gs"
      by simp_all
    moreover from \<open>Suc n \<le> i\<close> have "i - n = Suc (i - Suc n)" by simp
    ultimately show ?thesis using False by (simp add: splice1_def)
  qed
qed

lemma remove1_Nil_iff: "f \<in> set cbs \<Longrightarrow> (remove1 f cbs = []) = (cbs = [f])"
  by (cases cbs) (auto split: if_splits)

lemma remove1_not_Nil: "f \<in> set cbs \<Longrightarrow> cbs \<noteq> [f] \<Longrightarrow> remove1 f cbs \<noteq> []"
  by (simp add: remove1_Nil_iff)

text \<open>\<open>untrack\<close> for a service name that is not inherited: the first occurrence of the
  callback is removed.\<close>

lemma untrack_eq:
  assumes "\<not> inherited s"
  shows "untrack s k f st =
     (case map_of (services st) s of
        None \<Rightarrow> (Normal, False, st)
      | Some tbl \<Rightarrow>
          (case map_of tbl k of
             None \<Rightarrow> (Normal, False, st)
           | Some cbs \<Rightarrow>
               if f \<notin> set cbs then (Normal, False, st)
               else if cbs = [f] then (Normal, True, untrack_last s k tbl st)
               else (Normal, True,
                     st\<lparr>services :=
                        set_prop s (set_prop k (remove1 f cbs) tbl) (services st)\<rparr>)))"
proof (cases "map_of (services st) s")
  case None
  with assms show ?thesis by (simp add: untrack_def in_object_def has_own_def)
next
  case (Some tbl)
  note tbl = this
  show ?thesis
  proof (cases "map_of tbl k")
    case None
    with tbl show ?thesis by (simp add: untrack_def in_object_def has_own_def)
  next
    case (Some cbs)
    show ?thesis
    proof (cases "find_callback f cbs 0")
      case None
      then have "f \<notin> set cbs" by (simp add: find_callback_None)
      with tbl \<open>map_of tbl k = Some cbs\<close> None show ?thesis
        by (simp add: untrack_def in_object_def has_own_def)
    next
      case (Some i)
      from find_callback_Some [OF this] have sp: "splice1 i cbs = remove1 f cbs" by simp
      from Some have mem: "f \<in> set cbs"
        using find_callback_None [of f cbs 0] by simp
      with tbl \<open>map_of tbl k = Some cbs\<close> Some sp show ?thesis
        by (simp add: untrack_def in_object_def has_own_def Let_def remove1_Nil_iff)
    qed
  qed
qed

lemma untrack_last_emptied:
  assumes "services (untrack_last s k tbl st) = []"
  shows "untrack_last s k tbl st =
     st\<lparr>services := [], ping := None, close := True,
        socket := (case socket st of Sock rs \<Rightarrow> Sock (if rs \<le> 1 then 2 else rs) | x \<Rightarrow> x),
        timers := (case ping st of None \<Rightarrow> timers st | Some h \<Rightarrow> removeAll h (timers st)),
        effects := effects st
          @ (if socket st = Sock 1 then [Send (Single (Untrack s k))] else [])
          @ (case ping st of None \<Rightarrow> [] | Some h \<Rightarrow> [Clear_interval h])
          @ (case socket st of Sock rs \<Rightarrow> [Close_socket 1000 ''nothing else to track'']
             | _ \<Rightarrow> [])\<rparr>"
proof -
  from assms have e: "delete_prop k tbl = []" "delete_prop s (services st) = []"
    by (auto simp: services_untrack_last split: if_splits)
  then show ?thesis
    by (cases "socket st"; cases "ping st")
       (simp_all add: untrack_last_def Let_def empty_def sock_send_def sock_close_def
          emit_def clearInterval_def)
qed

lemma addTrack_eq:
  assumes "\<not> inherited s" and "\<not> inherited k"
  shows "addTrack s k f st = (Normal, st\<lparr>services := add_callback s k f (services st)\<rparr>)"
proof (cases "map_of (services st) s")
  case None
  with assms show ?thesis
    by (simp add: addTrack_def add_callback_def in_object_def has_own_def Let_def
        map_of_set_prop)
next
  case (Some tbl)
  with assms show ?thesis
    by (cases "map_of tbl k")
       (simp_all add: addTrack_def add_callback_def in_object_def has_own_def Let_def)
qed

lemma track_eq:
  assumes "\<not> inherited s" and "\<not> inherited k"
  shows "track s k f st =
     (Normal,
      (case socket st of
         Sock_null \<Rightarrow>
           st\<lparr>services := add_callback s k f (services st), socket := Sock_false,
              requests := Suc (requests st), effects := effects st @ [Rest_read]\<rparr>
       | Sock_false \<Rightarrow> st\<lparr>services := add_callback s k f (services st)\<rparr>
       | Sock rs \<Rightarrow>
           if rs = 1
           then st\<lparr>services := add_callback s k f (services st),
                   effects := effects st @ [Send (Single (Track s k))]\<rparr>
           else st\<lparr>services := add_callback s k f (services st)\<rparr>))"
  by (cases "socket st")
     (simp_all add: track_def addTrack_eq [OF assms] openSocket_def sock_send_def emit_def)

lemma is_open_conn_state:
  "(socket st = Sock 1) =
     (conn_state st = Open_Authorized \<or> conn_state st = Open_Unauthorized)"
  by (cases "socket st") (auto simp: conn_state_def)

lemma wires_untrack_last:
  "wires (effects (untrack_last s k tbl st)) =
     wires (effects st) @ (if socket st = Sock 1 then [Single (Untrack s k)] else [])"
  by (cases "socket st"; cases "ping st")
     (simp_all add: untrack_last_def Let_def empty_def sock_send_def sock_close_def
        emit_def clearInterval_def)

lemma plain_names:
  "\<not> inherited ''chat''" "\<not> inherited ''room1''" "\<not> inherited ''room2''"
  by (simp_all add: inherited_def object_prototype_props_def)

subsection \<open>The frame for one topic\<close>

text \<open>
  C4, as the code has it. For names that are not inherited, \<open>track\<close> sends the single
  track frame exactly when the socket object exists and is open, whether or not
  \<open>authorized\<close> has been received; \<open>untrack\<close> sends the single untrack frame exactly when
  the socket is open and the callback removed was the last of its key. In the states
  \<open>Closed\<close> and \<open>Connecting\<close> nothing is sent.
\<close>

theorem topic_frame_iff_socket_open:
  assumes "\<not> inherited service" and "\<not> inherited key"
  shows "wires (effects (snd (track service key callback st))) =
           wires (effects st) @
           (if conn_state st = Open_Authorized \<or> conn_state st = Open_Unauthorized
            then [Single (Track service key)] else []) \<and>
         wires (effects (snd (snd (untrack service key callback st)))) =
           wires (effects st) @
           (if (conn_state st = Open_Authorized \<or> conn_state st = Open_Unauthorized) \<and>
               (\<exists>tbl. map_of (services st) service = Some tbl \<and>
                      map_of tbl key = Some [callback])
            then [Single (Untrack service key)] else [])"
proof
  show "wires (effects (snd (track service key callback st))) =
           wires (effects st) @
           (if conn_state st = Open_Authorized \<or> conn_state st = Open_Unauthorized
            then [Single (Track service key)] else [])"
    unfolding is_open_conn_state [symmetric]
    by (cases "socket st") (simp_all add: track_eq [OF assms])
next
  show "wires (effects (snd (snd (untrack service key callback st)))) =
           wires (effects st) @
           (if (conn_state st = Open_Authorized \<or> conn_state st = Open_Unauthorized) \<and>
               (\<exists>tbl. map_of (services st) service = Some tbl \<and>
                      map_of tbl key = Some [callback])
            then [Single (Untrack service key)] else [])"
    unfolding is_open_conn_state [symmetric]
    by (auto simp: untrack_eq [OF assms(1)] wires_untrack_last split: option.splits)
qed

theorem topic_frame_iff_socket_open_witness:
  "\<not> inherited ''chat'' \<and> \<not> inherited ''room1'' \<and> \<not> inherited ''room2'' \<and>
   conn_state authorized_state = Open_Authorized \<and>
   wires (effects (snd (track ''chat'' ''room2'' 2 authorized_state))) =
     wires (effects authorized_state) @ [Single (Track ''chat'' ''room2'')] \<and>
   wires (effects (snd (snd (untrack ''chat'' ''room1'' 1 authorized_state)))) =
     wires (effects authorized_state) @ [Single (Untrack ''chat'' ''room1'')] \<and>
   wires (effects (snd (snd (untrack ''chat'' ''room2'' 2 authorized_state)))) =
     wires (effects authorized_state) \<and>
   conn_state init_state = Closed \<and>
   wires (effects (snd (track ''chat'' ''room2'' 2 init_state))) = []"
proof -
  have a: "conn_state authorized_state = Open_Authorized" "conn_state init_state = Closed"
    by (simp_all add: conn_state_def authorized_state_def init_state_def)
  have b: "wires (effects init_state) = []" by (simp add: init_state_def)
  have c: "map_of (services authorized_state) ''chat'' = Some [(''room1'', [1])]"
    by (simp add: authorized_state_def)
  from topic_frame_iff_socket_open [OF plain_names(1,3), of 2 authorized_state]
       topic_frame_iff_socket_open [OF plain_names(1,2), of 1 authorized_state]
       topic_frame_iff_socket_open [OF plain_names(1,3), of 2 init_state]
       plain_names a b c
  show ?thesis by simp
qed

text \<open>
  C4 as stated fails in the state \<open>Open_Unauthorized\<close>: after the socket has opened and
  before \<open>authorized\<close> arrives, \<open>track\<close> and \<open>untrack\<close> send their frames.
\<close>

theorem topic_frame_sent_unauthorized:
  "run (JSON_table []) [E_track ''chat'' ''room1'' 1, E_response (Some (JStr ''k1'')) True, E_open]
     init_state = opened_state \<and>
   conn_state opened_state = Open_Unauthorized \<and>
   wires (effects opened_state) = [Batch [Connect (Some (JStr ''k1'')), Track ''chat'' ''room1'']] \<and>
   wires (effects (snd (track ''chat'' ''room2'' 2 opened_state))) =
     [Batch [Connect (Some (JStr ''k1'')), Track ''chat'' ''room1''], Single (Track ''chat'' ''room2'')] \<and>
   wires (effects (snd (snd (untrack ''chat'' ''room1'' 1 opened_state)))) =
     [Batch [Connect (Some (JStr ''k1'')), Track ''chat'' ''room1''], Single (Untrack ''chat'' ''room1'')]"
  by code_simp

subsection \<open>The registry becomes empty\<close>

text \<open>
  C7, as the code has it. When \<open>untrack\<close> takes the registry from non-empty to empty, the
  keepalive interval is cleared, \<open>__ping\<close> is reset and the close flag is set; the close
  with code 1000 and reason "nothing else to track" is asked once of the socket object
  if there is one, and of nothing if \<open>__socket\<close> is \<open>null\<close> or \<open>false\<close>.
\<close>

theorem untrack_to_empty:
  assumes "\<not> inherited service"
    and "services st \<noteq> []"
    and "services (snd (snd (untrack service key callback st))) = []"
  shows "closes (effects (snd (snd (untrack service key callback st)))) =
           closes (effects st) @
           (case socket st of Sock rs \<Rightarrow> [(1000, ''nothing else to track'')] | _ \<Rightarrow> []) \<and>
         ping (snd (snd (untrack service key callback st))) = None \<and>
         close (snd (snd (untrack service key callback st))) \<and>
         timers (snd (snd (untrack service key callback st))) =
           (case ping st of None \<Rightarrow> timers st | Some h \<Rightarrow> removeAll h (timers st))"
proof -
  let ?st' = "snd (snd (untrack service key callback st))"
  from assms(2,3) untrack_eq [OF assms(1), of key callback st]
  obtain tbl where st': "?st' = untrack_last service key tbl st"
    by (auto split: option.splits if_splits)
  with assms(3) have "services (untrack_last service key tbl st) = []" by simp
  from untrack_last_emptied [OF this] st' show ?thesis
    by (cases "socket st"; cases "ping st") simp_all
qed

theorem untrack_to_empty_witness:
  "\<not> inherited ''chat'' \<and> services authorized_state \<noteq> [] \<and>
   services (snd (snd (untrack ''chat'' ''room1'' 1 authorized_state))) = [] \<and>
   closes (effects (snd (snd (untrack ''chat'' ''room1'' 1 authorized_state)))) =
     [(1000, ''nothing else to track'')] \<and>
   ping (snd (snd (untrack ''chat'' ''room1'' 1 authorized_state))) = None \<and>
   timers (snd (snd (untrack ''chat'' ''room1'' 1 authorized_state))) = []"
proof -
  have a: "services authorized_state \<noteq> []" by (simp add: authorized_state_def)
  have b: "services (snd (snd (untrack ''chat'' ''room1'' 1 authorized_state))) = []"
    by code_simp
  have c: "closes (effects authorized_state) = []" "socket authorized_state = Sock 1"
    "ping authorized_state = Some 1" "timers authorized_state = [1]"
    by (simp_all add: authorized_state_def)
  from untrack_to_empty [OF plain_names(1) a b] plain_names(1) a b c
  show ?thesis by simp
qed

text \<open>
  C7 as stated fails when the registry is emptied before the socket has been made:
  \<open>track\<close> then \<open>untrack\<close>, with the request of \<open>_openSocket\<close> still unanswered, asks no
  close of any socket.
\<close>

theorem untrack_to_empty_without_socket:
  "services (snd (track ''chat'' ''room1'' 1 init_state)) = [(''chat'', [(''room1'', [1])])] \<and>
   socket (snd (track ''chat'' ''room1'' 1 init_state)) = Sock_false \<and>
   services (snd (snd (untrack ''chat'' ''room1'' 1
      (snd (track ''chat'' ''room1'' 1 init_state))))) = [] \<and>
   closes (effects (snd (snd (untrack ''chat'' ''room1'' 1
      (snd (track ''chat'' ''room1'' 1 init_state)))))) = []"
  by code_simp

subsection \<open>The pruning invariant\<close>

lemma pruned_table:
  assumes "pruned reg" and "map_of reg s = Some tbl"
  shows "tbl \<noteq> []" and "list_all (\<lambda>q. snd q \<noteq> []) tbl"
  using list_all_map_of [OF assms [unfolded pruned_def]] by simp_all

lemma pruned_set_prop:
  assumes "pruned reg" and "tbl \<noteq> []" and "list_all (\<lambda>q. snd q \<noteq> []) tbl"
  shows "pruned (set_prop s tbl reg)"
  using assms unfolding pruned_def by (intro list_all_set_prop) simp_all

lemma pruned_add_callback:
  assumes "pruned reg"
  shows "pruned (add_callback s k f reg)"
proof -
  let ?tbl = "case map_of reg s of None \<Rightarrow> [] | Some t \<Rightarrow> t"
  let ?cbs = "case map_of ?tbl k of None \<Rightarrow> [f] | Some cbs \<Rightarrow> cbs @ [f]"
  have "list_all (\<lambda>q. snd q \<noteq> []) ?tbl"
    using pruned_table(2) [OF assms] by (cases "map_of reg s") simp_all
  moreover have "?cbs \<noteq> []" by (cases "map_of ?tbl k") simp_all
  ultimately have "list_all (\<lambda>q. snd q \<noteq> []) (set_prop k ?cbs ?tbl)"
    by (intro list_all_set_prop) simp_all
  with assms have "pruned (set_prop s (set_prop k ?cbs ?tbl) reg)"
    by (intro pruned_set_prop) simp_all
  then show ?thesis by (simp add: add_callback_def Let_def)
qed

lemma untrack_services:
  assumes "\<not> inherited s"
  shows "services (snd (snd (untrack s k f st))) = services st \<or>
         services (snd (snd (untrack s k f st))) = delete_prop s (services st) \<or>
         (\<exists>tbl. map_of (services st) s = Some tbl \<and> delete_prop k tbl \<noteq> [] \<and>
            services (snd (snd (untrack s k f st))) =
              set_prop s (delete_prop k tbl) (services st)) \<or>
         (\<exists>tbl cbs. map_of (services st) s = Some tbl \<and> map_of tbl k = Some cbs \<and>
            remove1 f cbs \<noteq> [] \<and>
            services (snd (snd (untrack s k f st))) =
              set_prop s (set_prop k (remove1 f cbs) tbl) (services st))"
proof (cases "map_of (services st) s")
  case None
  with assms show ?thesis by (simp add: untrack_eq)
next
  case (Some tbl)
  note tbl = this
  show ?thesis
  proof (cases "map_of tbl k")
    case None
    with assms tbl show ?thesis by (simp add: untrack_eq)
  next
    case (Some cbs)
    consider "f \<notin> set cbs" | "cbs = [f]" | "f \<in> set cbs" "cbs \<noteq> [f]" by blast
    then show ?thesis
    proof cases
      case 1
      with assms tbl Some show ?thesis by (simp add: untrack_eq)
    next
      case 2
      with assms tbl Some show ?thesis
        by (simp add: untrack_eq services_untrack_last)
    next
      case 3
      then have "remove1 f cbs \<noteq> []" by (rule remove1_not_Nil)
      with assms tbl Some 3 show ?thesis by (simp add: untrack_eq)
    qed
  qed
qed

lemma pruned_untrack:
  assumes "\<not> inherited s" and "pruned (services st)"
  shows "pruned (services (snd (snd (untrack s k f st))))"
  using untrack_services [OF assms(1), of k f st]
proof (elim disjE exE conjE)
  assume "services (snd (snd (untrack s k f st))) = services st"
  with assms(2) show ?thesis by simp
next
  assume "services (snd (snd (untrack s k f st))) = delete_prop s (services st)"
  with assms(2) show ?thesis by (simp add: pruned_def list_all_delete_prop)
next
  fix tbl
  assume "map_of (services st) s = Some tbl" and "delete_prop k tbl \<noteq> []"
    and eq: "services (snd (snd (untrack s k f st))) =
               set_prop s (delete_prop k tbl) (services st)"
  with assms(2) show ?thesis
    by (simp add: pruned_set_prop list_all_delete_prop pruned_table(2))
next
  fix tbl cbs
  assume tbl: "map_of (services st) s = Some tbl" and "remove1 f cbs \<noteq> []"
    and eq: "services (snd (snd (untrack s k f st))) =
               set_prop s (set_prop k (remove1 f cbs) tbl) (services st)"
  then have "list_all (\<lambda>q. snd q \<noteq> []) (set_prop k (remove1 f cbs) tbl)"
    using pruned_table(2) [OF assms(2) tbl] by (intro list_all_set_prop) simp_all
  with assms(2) eq show ?thesis by (simp add: pruned_set_prop)
qed

lemma wf_registry_table:
  assumes "wf_registry reg" and "map_of reg s = Some tbl"
  shows "distinct (map fst tbl)"
  using list_all_map_of [OF conjunct2 [OF assms(1) [unfolded wf_registry_def]] assms(2)]
  by simp

lemma wf_registry_set_prop:
  assumes "wf_registry reg" and "distinct (map fst tbl)"
  shows "wf_registry (set_prop s tbl reg)"
  using assms unfolding wf_registry_def
  by (simp add: distinct_set_prop list_all_set_prop)

lemma wf_registry_delete_prop: "wf_registry reg \<Longrightarrow> wf_registry (delete_prop s reg)"
  unfolding wf_registry_def by (simp add: distinct_delete_prop list_all_delete_prop)

lemma wf_registry_add_callback:
  assumes "wf_registry reg"
  shows "wf_registry (add_callback s k f reg)"
proof -
  let ?tbl = "case map_of reg s of None \<Rightarrow> [] | Some t \<Rightarrow> t"
  have "distinct (map fst ?tbl)"
    using wf_registry_table [OF assms] by (cases "map_of reg s") simp_all
  with assms show ?thesis
    by (simp add: add_callback_def Let_def wf_registry_set_prop distinct_set_prop)
qed

lemma wf_registry_untrack:
  assumes "\<not> inherited s" and "wf_registry (services st)"
  shows "wf_registry (services (snd (snd (untrack s k f st))))"
  using untrack_services [OF assms(1), of k f st] assms(2)
  by (elim disjE exE conjE)
     (simp_all add: wf_registry_delete_prop wf_registry_set_prop distinct_delete_prop
        distinct_set_prop wf_registry_table)

lemma services_call_each: "services (call_each fs d st) = services st"
  by (induction fs arbitrary: st) (simp_all add: emit_def)

lemma services_handleMessage: "services (snd (handleMessage P d st)) = services st"
  by (cases d)
     (simp_all add: handleMessage_def handleDecoded_def emit_def services_call_each
        split: option.splits)

lemma services_handleClose: "services (handleClose st) = services st"
  by (cases "close st") (simp_all add: handleClose_valid handleClose_reconnect)

lemma services_openSocket_then: "services (openSocket_then res ok st) = services st"
  by (cases "ping st")
     (simp_all add: openSocket_then_def setInterval_def emit_def Let_def)

lemma services_step:
  assumes "plain_call e"
  shows "services (step P e st) = services st \<or>
         (\<exists>s k f. e = E_track s k f \<and> \<not> inherited s \<and> \<not> inherited k \<and>
            services (step P e st) = add_callback s k f (services st)) \<or>
         (\<exists>s k f. e = E_untrack s k f \<and> \<not> inherited s \<and>
            services (step P e st) = services (snd (snd (untrack s k f st))))"
proof (cases e)
  case (E_track s k f)
  with assms show ?thesis by (cases "socket st") (simp_all add: track_eq)
next
  case (E_untrack s k f)
  with assms show ?thesis by simp
next
  case (E_response res ok)
  then show ?thesis by (simp add: services_openSocket_then)
next
  case E_open
  then show ?thesis by (simp add: open_hook_def emit_def split: socket.splits)
next
  case (E_message d)
  then show ?thesis by (simp add: services_handleMessage split: socket.splits)
next
  case E_close
  then show ?thesis by (simp add: services_handleClose split: socket.splits)
next
  case E_timeout
  then show ?thesis by (simp add: openSocket_def emit_def)
next
  case (E_tick h)
  then show ?thesis
    by (simp add: ping_tick_def sock_send_def emit_def split: socket.splits)
qed

lemma pruned_step:
  assumes "plain_call e" and "pruned (services st)"
  shows "pruned (services (step P e st))"
  using services_step [OF assms(1), of P st] assms(2)
  by (elim disjE exE conjE) (simp_all add: pruned_add_callback pruned_untrack)

lemma wf_registry_step:
  assumes "plain_call e" and "wf_registry (services st)"
  shows "wf_registry (services (step P e st))"
  using services_step [OF assms(1), of P st] assms(2)
  by (elim disjE exE conjE) (simp_all add: wf_registry_add_callback wf_registry_untrack)

lemma wf_registry_run:
  assumes "list_all plain_call evs" and "wf_registry (services st)"
  shows "wf_registry (services (run P evs st))"
  using assms
proof (induction evs arbitrary: st)
  case Nil
  then show ?case by simp
next
  case (Cons e es)
  from Cons.prems have "wf_registry (services (step P e st))" by (simp add: wf_registry_step)
  with Cons.prems(1) Cons.IH show ?case by simp
qed

text \<open>
  For calls with plain names the registry stays pruned, whatever else happens in
  between: no service without a key and no key without a callback.
\<close>

theorem pruning_invariant:
  assumes "list_all plain_call evs" and "pruned (services st)"
  shows "pruned (services (run P evs st))"
  using assms
proof (induction evs arbitrary: st)
  case Nil
  then show ?case by simp
next
  case (Cons e es)
  from Cons.prems have "pruned (services (step P e st))" by (simp add: pruned_step)
  with Cons.prems(1) Cons.IH show ?case by simp
qed

theorem pruning_invariant_witness:
  "list_all plain_call
     [E_track ''chat'' ''room1'' 1, E_track ''chat'' ''room2'' 2,
      E_untrack ''chat'' ''room1'' 1] \<and>
   pruned (services init_state) \<and>
   services (run (JSON_table [])
     [E_track ''chat'' ''room1'' 1, E_track ''chat'' ''room2'' 2,
      E_untrack ''chat'' ''room1'' 1] init_state) = [(''chat'', [(''room2'', [2])])] \<and>
   pruned [(''chat'', [(''room2'', [2])])]"
proof -
  let ?evs = "[E_track ''chat'' ''room1'' 1, E_track ''chat'' ''room2'' 2,
      E_untrack ''chat'' ''room1'' 1]"
  have a: "list_all plain_call ?evs" by (simp add: plain_names)
  have b: "pruned (services init_state)" by (simp add: init_state_def pruned_def)
  have c: "services (run (JSON_table []) ?evs init_state) = [(''chat'', [(''room2'', [2])])]"
    by code_simp
  from pruning_invariant [OF a b, of "JSON_table []"] a b c show ?thesis by simp
qed

text \<open>
  C6 fails on the code for a key that every object inherits. Tracking the key
  \<open>constructor\<close> of a new service \<open>chat\<close> makes the entry of the service, finds the key
  "in" the new empty object, and throws on the \<open>push\<close> that the inherited value does not
  have: the registry keeps the service \<open>chat\<close> with no key.
\<close>

theorem track_inherited_key_breaks_pruning:
  "pruned (services init_state) \<and>
   track ''chat'' ''constructor'' 1 init_state =
     (Throw TypeError, init_state\<lparr>services := [(''chat'', [])]\<rparr>) \<and>
   \<not> pruned (services (snd (track ''chat'' ''constructor'' 1 init_state)))"
  by code_simp

subsection \<open>The dispatch of data messages\<close>

lemma call_each_eq: "call_each fs d st = st\<lparr>effects := effects st @ map (\<lambda>f. Call f d) fs\<rparr>"
  by (induction fs arbitrary: st) (simp_all add: emit_def)

text \<open>
  A decoded message without an \<open>error\<close>, whose service and key are strings: if the topic
  is in the registry, each callback of its list is called once, in the order of the
  list, with the \<open>data\<close> of the message; if it is not and the names are plain, nothing
  happens.
\<close>

theorem dispatch_to_callbacks:
  assumes "t \<noteq> ''authorized''" and "t \<noteq> ''pong''"
    and "JSON_parse t = Some (JObj ps)"
    and "\<not> truthy (map_of ps ''error'')"
    and "map_of ps ''service'' = Some (JStr s)"
    and "map_of ps ''key'' = Some (JStr k)"
  shows "(\<forall>tbl cbs. map_of (services st) s = Some tbl \<and> map_of tbl k = Some cbs \<longrightarrow>
            handleMessage JSON_parse (Text t) st =
              (Normal, st\<lparr>effects := effects st @ map (\<lambda>f. Call f (map_of ps ''data'')) cbs\<rparr>))
       \<and> (\<not> inherited s \<and> \<not> inherited k \<and>
            (map_of (services st) s = None \<or>
             (\<exists>tbl. map_of (services st) s = Some tbl \<and> map_of tbl k = None)) \<longrightarrow>
            handleMessage JSON_parse (Text t) st = (Normal, st))"
proof -
  have h: "handleMessage JSON_parse (Text t) st = handleDecoded (JObj ps) st"
    using assms(1-3) by (simp add: handleMessage_def)
  show ?thesis
    unfolding h using assms(4-6)
    by (auto simp: handleDecoded_def show_value_def in_object_def has_own_def call_each_eq)
qed

theorem dispatch_to_callbacks_witness:
  \<open>''{"service":"chat","key":"room1","data":{"text":"hi"}}'' \<noteq> ''authorized'' \<and>
   ''{"service":"chat","key":"room1","data":{"text":"hi"}}'' \<noteq> ''pong'' \<and>
   handleMessage
     (JSON_table
        [(''{"service":"chat","key":"room1","data":{"text":"hi"}}'',
          JObj [(''service'', JStr ''chat''), (''key'', JStr ''room1''),
                (''data'', JObj [(''text'', JStr ''hi'')])])])
     (Text ''{"service":"chat","key":"room1","data":{"text":"hi"}}'')
     (authorized_state\<lparr>services := [(''chat'', [(''room1'', [1, 2])])]\<rparr>) =
   (Normal,
    authorized_state
      \<lparr>services := [(''chat'', [(''room1'', [1, 2])])],
       effects := effects authorized_state @
         [Call 1 (Some (JObj [(''text'', JStr ''hi'')])),
          Call 2 (Some (JObj [(''text'', JStr ''hi'')]))]\<rparr>)\<close>
proof -
  let ?t = \<open>''{"service":"chat","key":"room1","data":{"text":"hi"}}''\<close>
  let ?ps = "[(''service'', JStr ''chat''), (''key'', JStr ''room1''),
              (''data'', JObj [(''text'', JStr ''hi'')])]"
  let ?st = "authorized_state\<lparr>services := [(''chat'', [(''room1'', [1, 2])])]\<rparr>"
  have a: "?t \<noteq> ''authorized''" "?t \<noteq> ''pong''" by simp_all
  have b: "JSON_table [(?t, JObj ?ps)] ?t = Some (JObj ?ps)" by (simp add: JSON_table_def)
  have c: "\<not> truthy (map_of ?ps ''error'')" "map_of ?ps ''service'' = Some (JStr ''chat'')"
    "map_of ?ps ''key'' = Some (JStr ''room1'')" by simp_all
  have d: "map_of (services ?st) ''chat'' = Some [(''room1'', [1, 2])]"
    "map_of [(''room1'', [1, 2::nat])] ''room1'' = Some [1, 2]" by simp_all
  from dispatch_to_callbacks
         [where JSON_parse = "JSON_table [(?t, JObj ?ps)]" and t = ?t and ps = ?ps
            and s = "''chat''" and k = "''room1''" and st = ?st, OF a b c] d a
  show ?thesis by simp
qed

text \<open>
  C8 fails on the code for a key that every object inherits. With the topic \<open>chat\<close>,
  \<open>room1\<close> tracked, a message for the service \<open>chat\<close> and the key \<open>constructor\<close>, which is
  not registered, finds the key "in" the service's object and throws a \<open>TypeError\<close> on
  the loop over the inherited value, which is not iterable.
\<close>

theorem dispatch_inherited_key_throws:
  \<open>map_of (services authorized_state) ''chat'' = Some [(''room1'', [1])] \<and>
   map_of [(''room1'', [1::nat])] ''constructor'' = None \<and>
   handleMessage
     (JSON_table
        [(''{"service":"chat","key":"constructor","data":1}'',
          JObj [(''service'', JStr ''chat''), (''key'', JStr ''constructor''),
                (''data'', JNum ''1'')])])
     (Text ''{"service":"chat","key":"constructor","data":1}'') authorized_state =
     (Throw TypeError, authorized_state)\<close>
  by code_simp

subsection \<open>The intervals of reachable states\<close>

text \<open>In every state reached from the initial one, no interval runs but the one whose
  handle \<open>__ping\<close> holds.\<close>

lemma timers_ok_keepalive: "keepalive st' = keepalive st \<Longrightarrow> timers_ok st \<Longrightarrow> timers_ok st'"
  by (simp add: keepalive_def timers_ok_def)

lemma timers_ok_untrack_last:
  assumes "timers_ok st"
  shows "timers_ok (untrack_last s k tbl st)"
proof (cases "services (untrack_last s k tbl st) = []")
  case True
  from untrack_last_emptied [OF this] have
    "ping (untrack_last s k tbl st) = None"
    "timers (untrack_last s k tbl st) =
       (case ping st of None \<Rightarrow> timers st | Some h \<Rightarrow> removeAll h (timers st))"
    by (cases "socket st"; cases "ping st"; simp)+
  with assms show ?thesis
    by (cases "ping st") (auto simp: timers_ok_def)
next
  case False
  from untrack_last_services [OF this] assms show ?thesis by (rule timers_ok_keepalive)
qed

lemma timers_ok_handleClose:
  assumes "timers_ok st"
  shows "timers_ok (handleClose st)"
  using assms
  by (cases "close st"; cases "ping st")
     (auto simp: timers_ok_def handleClose_valid handleClose_reconnect)

lemma timers_ok_openSocket_then:
  assumes "timers_ok st"
  shows "timers_ok (openSocket_then res ok st)"
proof (cases ok)
  case False
  with assms show ?thesis by (simp add: openSocket_then_def emit_def timers_ok_def)
next
  case True
  with assms show ?thesis
    by (cases "ping st")
       (simp_all add: openSocket_then_fresh openSocket_then_kept timers_ok_def)
qed

lemma timers_ok_simps [simp]:
  "timers_ok (st\<lparr>requests := n\<rparr>) = timers_ok st"
  "timers_ok (st\<lparr>timeouts := n\<rparr>) = timers_ok st"
  "timers_ok (st\<lparr>socket := x\<rparr>) = timers_ok st"
  "timers_ok (st\<lparr>services := r\<rparr>) = timers_ok st"
  "timers_ok (emit e st) = timers_ok st"
  by (simp_all add: timers_ok_def emit_def)

lemma timers_ok_step:
  assumes "timers_ok st"
  shows "timers_ok (step P e st)"
proof (cases e)
  case (E_track s k f)
  with assms keepalive_track [of s k f st] show ?thesis by (simp add: timers_ok_keepalive)
next
  case (E_untrack s k f)
  with assms untrack_cases [of s k f st] show ?thesis
    by (auto simp: timers_ok_untrack_last)
next
  case (E_response res ok)
  with assms show ?thesis by (simp add: timers_ok_openSocket_then)
next
  case E_open
  with assms show ?thesis by (simp add: open_hook_def split: socket.splits)
next
  case (E_message d)
  with assms keepalive_handleMessage [of P d st] show ?thesis
    by (simp add: timers_ok_keepalive split: socket.splits)
next
  case E_close
  with assms show ?thesis by (simp add: timers_ok_handleClose split: socket.splits)
next
  case E_timeout
  with assms show ?thesis by (simp add: openSocket_def)
next
  case (E_tick h)
  with assms show ?thesis
    by (simp add: ping_tick_def sock_send_def split: socket.splits)
qed

lemma timers_ok_run: "timers_ok st \<Longrightarrow> timers_ok (run P evs st)"
  by (induction evs arbitrary: st) (simp_all add: timers_ok_step)

lemma timers_ok_init: "timers_ok init_state"
  by (simp add: timers_ok_def init_state_def)

subsection \<open>The handle at an unexpected close\<close>

text \<open>When messages arrive on open sockets only, every close that finds the close flag
  reset also finds a handle in \<open>__ping\<close>, in every state reached from the initial one.\<close>

lemma handle_kept_link: "link st' = link st \<Longrightarrow> handle_kept st \<Longrightarrow> handle_kept st'"
  by (simp add: link_def handle_kept_def)

lemma link_simps [simp]:
  "link (st\<lparr>services := r\<rparr>) = link st"
  "link (st\<lparr>requests := n\<rparr>) = link st"
  "link (st\<lparr>timeouts := n\<rparr>) = link st"
  "link (st\<lparr>effects := es\<rparr>) = link st"
  "link (emit e st) = link st"
  by (simp_all add: link_def emit_def)

lemma link_addTrack: "link (snd (addTrack s k f st)) = link st"
  by (simp add: addTrack_def Let_def split: option.splits)

lemma handle_kept_track:
  assumes "handle_kept st"
  shows "handle_kept (snd (track s k f st))"
proof -
  obtain c st1 where a: "addTrack s k f st = (c, st1)" by (cases "addTrack s k f st")
  then have "link st1 = link st" using link_addTrack [of s k f st] by simp
  from this assms have k: "handle_kept st1" by (rule handle_kept_link)
  then show ?thesis
    by (cases c; cases "socket st1")
       (simp_all add: track_def a openSocket_def sock_send_def handle_kept_def emit_def)
qed

lemma link_untrack_last:
  assumes "services (untrack_last s k tbl st) \<noteq> []"
  shows "link (untrack_last s k tbl st) = link st"
proof (cases "delete_prop k tbl = []")
  case True
  with assms have "delete_prop s (services st) \<noteq> []"
    by (simp add: services_untrack_last)
  with True show ?thesis
    by (cases "socket st")
       (simp_all add: untrack_last_def Let_def empty_def sock_send_def emit_def link_def)
next
  case False
  then show ?thesis
    by (cases "socket st")
       (simp_all add: untrack_last_def Let_def empty_def sock_send_def emit_def link_def)
qed

lemma handle_kept_untrack_last:
  assumes "handle_kept st"
  shows "handle_kept (untrack_last s k tbl st)"
proof (cases "services (untrack_last s k tbl st) = []")
  case True
  from untrack_last_emptied [OF this] show ?thesis
    by (cases "socket st"; cases "ping st") (simp_all add: handle_kept_def)
next
  case False
  from link_untrack_last [OF this] assms show ?thesis by (rule handle_kept_link)
qed

lemma handle_kept_untrack:
  assumes "handle_kept st"
  shows "handle_kept (snd (snd (untrack s k f st)))"
  using untrack_cases [of s k f st] assms
  by (elim disjE exE) (simp_all add: handle_kept_untrack_last, simp add: handle_kept_def)

lemma link_call_each: "link (call_each fs d st) = link st"
  by (induction fs arbitrary: st) simp_all

lemma link_handleDecoded: "link (snd (handleDecoded m st)) = link st"
  by (simp add: handleDecoded_def link_call_each split: option.splits)

lemma handle_kept_handleMessage:
  assumes "handle_kept st" and "socket st = Sock 1"
  shows "handle_kept (snd (handleMessage P d st))"
proof (cases d)
  case (Text t)
  show ?thesis
  proof (cases "t = ''authorized''")
    case True
    with assms Text show ?thesis by (simp add: handleMessage_def handle_kept_def)
  next
    case False
    have "link (snd (handleMessage P (Text t) st)) = link st"
      using False by (simp add: handleMessage_def link_handleDecoded split: option.splits)
    with assms(1) Text show ?thesis by (simp add: handle_kept_link)
  qed
next
  case (Other ty)
  with assms(1) show ?thesis by (simp add: handleMessage_def handle_kept_link)
qed

lemma handle_kept_handleClose: "handle_kept (handleClose (st\<lparr>socket := Sock 3\<rparr>))"
  by (cases "close st"; cases "ping st")
     (simp_all add: handleClose_valid handleClose_reconnect handle_kept_def)

lemma handle_kept_openSocket_then:
  assumes "handle_kept st"
  shows "handle_kept (openSocket_then res ok st)"
proof (cases ok)
  case False
  with assms show ?thesis by (simp add: openSocket_then_def emit_def handle_kept_def)
next
  case True
  then show ?thesis
    by (cases "ping st")
       (simp_all add: openSocket_then_fresh openSocket_then_kept handle_kept_def)
qed

lemma handle_kept_step:
  assumes "handle_kept st" and "case e of E_message d \<Rightarrow> socket st = Sock 1 | _ \<Rightarrow> True"
  shows "handle_kept (step P e st)"
proof (cases e)
  case (E_track s k f)
  with assms show ?thesis by (simp add: handle_kept_track)
next
  case (E_untrack s k f)
  with assms show ?thesis by (simp add: handle_kept_untrack)
next
  case (E_response res ok)
  have "handle_kept (st\<lparr>requests := requests st - 1\<rparr>)"
    using assms(1) by (simp add: handle_kept_def)
  with E_response assms(1) show ?thesis by (simp add: handle_kept_openSocket_then)
next
  case E_open
  with assms show ?thesis
    by (simp add: open_hook_def handle_kept_def emit_def split: socket.splits)
next
  case (E_message d)
  with assms show ?thesis by (simp add: handle_kept_handleMessage)
next
  case E_close
  with assms show ?thesis by (simp add: handle_kept_handleClose split: socket.splits)
next
  case E_timeout
  with assms show ?thesis by (simp add: openSocket_def handle_kept_def emit_def)
next
  case (E_tick h)
  with assms show ?thesis
    by (simp add: ping_tick_def sock_send_def handle_kept_def emit_def split: socket.splits)
qed

lemma handle_kept_run:
  "in_order P evs st \<Longrightarrow> handle_kept st \<Longrightarrow> handle_kept (run P evs st)"
  by (induction evs arbitrary: st) (simp_all add: handle_kept_step)

lemma unexpected_close_has_handle:
  assumes "in_order P evs init_state" and "list_all modelled evs"
    and "\<not> close (run P evs init_state)"
  shows "\<exists>h. ping (run P evs init_state) = Some h" and "timers_ok (run P evs init_state)"
proof -
  have "handle_kept init_state" by (simp add: handle_kept_def init_state_def)
  with assms(1) have "handle_kept (run P evs init_state)" by (rule handle_kept_run)
  with assms(3) show "\<exists>h. ping (run P evs init_state) = Some h"
    by (simp add: handle_kept_def)
  show "timers_ok (run P evs init_state)" using timers_ok_init by (rule timers_ok_run)
qed

end
